theory Spec2Isabelle
  imports Main "HOL-Library.Word" "HOL-Library.Multiset"
begin

unbundle bit_operations_syntax

section \<open>Machine types and faults\<close>

type_synonym u8 = "8 word"
type_synonym u16 = "16 word"
type_synonym u32 = "32 word"
type_synonym u64 = "64 word"

text \<open>
  The C of \<^verbatim>\<open>RadioTask.c\<close> has three places whose behaviour the language leaves
  undefined: the remainder \<^verbatim>\<open>i % numUsedChannels\<close> when the count is zero, the signed
  subtraction of \<^verbatim>\<open>_compare\<close> when it leaves the range of \<^verbatim>\<open>int\<close>, and an array
  access outside its bounds. The embedding makes each of them a value.
\<close>

datatype fault = DivByZero | SignedOverflow | OutOfBounds | UninitRead

section \<open>Channel Selection Algorithm \#1 (\<^verbatim>\<open>computeMap1\<close>)\<close>

text \<open>The test \<^verbatim>\<open>map & (1ULL << i)\<close> of both loops.\<close>

definition chanUsed :: "u64 \<Rightarrow> nat \<Rightarrow> bool" where
  "chanUsed m i = (m AND push_bit i 1 \<noteq> 0)"

text \<open>
  The first loop. \<^verbatim>\<open>remapping_table\<close> is a local array of 37 bytes that the code does
  not initialise: a cell is \<open>None\<close> until the loop has written it. The loop counter
  \<^verbatim>\<open>i\<close> and \<^verbatim>\<open>numUsedChannels\<close> are bytes that never exceed 37, so they are
  natural numbers here.
\<close>

definition countStep :: "u64 \<Rightarrow> nat \<Rightarrow> u8 option list \<times> nat \<Rightarrow> u8 option list \<times> nat" where
  "countStep m i s =
     (case s of (remapping_table, numUsedChannels) \<Rightarrow>
        if chanUsed m i
        then (remapping_table[numUsedChannels := Some (of_nat i)], numUsedChannels + 1)
        else (remapping_table, numUsedChannels))"

definition countLoop :: "u64 \<Rightarrow> u8 option list \<times> nat" where
  "countLoop m = fold (countStep m) [0..<37] (replicate 37 None, 0)"

text \<open>
  The second loop, over the indices still to do, writing the global
  \<^verbatim>\<open>mapping_table\<close>. The remainder by a zero count is a fault, and so is the read of
  a cell of \<^verbatim>\<open>remapping_table\<close> that was never written.
\<close>

fun mapLoop :: "u64 \<Rightarrow> u8 option list \<Rightarrow> nat \<Rightarrow> nat list \<Rightarrow> u8 list \<Rightarrow> fault + u8 list" where
  "mapLoop m remapping_table numUsedChannels [] mapping_table = Inr mapping_table"
| "mapLoop m remapping_table numUsedChannels (i # rest) mapping_table =
     (if chanUsed m i
      then mapLoop m remapping_table numUsedChannels rest (mapping_table[i := of_nat i])
      else if numUsedChannels = 0 then Inl DivByZero
      else (let remappingIndex = i mod numUsedChannels in
            if length remapping_table \<le> remappingIndex then Inl OutOfBounds
            else (case remapping_table ! remappingIndex of
                    None \<Rightarrow> Inl UninitRead
                  | Some c \<Rightarrow>
                      mapLoop m remapping_table numUsedChannels rest (mapping_table[i := c]))))"

definition computeMap1 :: "u64 \<Rightarrow> u8 list \<Rightarrow> fault + u8 list" where
  "computeMap1 m mapping_table =
     (case countLoop m of (remapping_table, numUsedChannels) \<Rightarrow>
        mapLoop m remapping_table numUsedChannels [0..<37] mapping_table)"

text \<open>
  The specification's words for the same table: \<open>remap\<close> is the ascending list of the
  indices whose bit is set, and an unused index folds onto it by the remainder.
\<close>

definition remap :: "u64 \<Rightarrow> nat list" where
  "remap m = filter (bit m) [0..<37]"

definition usedCount :: "u64 \<Rightarrow> nat" where
  "usedCount m = length (remap m)"

definition csa1 :: "u64 \<Rightarrow> nat \<Rightarrow> u8" where
  "csa1 m i = (if bit m i then of_nat i else of_nat (remap m ! (i mod usedCount m)))"

definition csa1Table :: "u64 \<Rightarrow> u8 list" where
  "csa1Table m = map (csa1 m) [0..<37]"

section \<open>Frames and little-endian fields\<close>

text \<open>
  Modelled from the spec: \<^verbatim>\<open>BLE_Frame\<close> is declared in \<^verbatim>\<open>RadioWrapper.h\<close>, which is
  not among the sources. Its fields are the four that \<^verbatim>\<open>reactToPDU\<close> reads, typed as
  section 3 of the specification describes the frame: a channel index, an unsigned 32-bit
  timestamp, the payload bytes and a length. \<^verbatim>\<open>pData\<close> is a pointer into the receive
  buffer: \<open>pData frame k\<close> is the byte found \<open>k\<close> places after it. The field
  \<^verbatim>\<open>length\<close> is \<open>length_f\<close> here.
\<close>

record BLE_Frame =
  timestamp :: u32
  length_f :: nat
  channel :: nat
  pData :: "nat \<Rightarrow> u8"

text \<open>
  The code reads multi-byte fields through casts such as
  \<^verbatim>\<open>*(uint16_t *)(frame->pData + 4)\<close> and through \<^verbatim>\<open>memcpy\<close> into a zeroed
  \<^verbatim>\<open>uint64_t\<close>; the target is little-endian, so the byte at the lowest address is the
  least significant.
\<close>

fun leBytes :: "u8 list \<Rightarrow> nat" where
  "leBytes [] = 0"
| "leBytes (b # bs) = unat b + 256 * leBytes bs"

definition load16 :: "(nat \<Rightarrow> u8) \<Rightarrow> nat \<Rightarrow> u16" where
  "load16 p k = of_nat (leBytes [p k, p (k + 1)])"

definition load32 :: "(nat \<Rightarrow> u8) \<Rightarrow> nat \<Rightarrow> u32" where
  "load32 p k = of_nat (leBytes [p k, p (k + 1), p (k + 2), p (k + 3)])"

definition load40 :: "(nat \<Rightarrow> u8) \<Rightarrow> nat \<Rightarrow> u64" where
  "load40 p k = of_nat (leBytes [p k, p (k + 1), p (k + 2), p (k + 3), p (k + 4)])"

section \<open>The state of the radio task\<close>

text \<open>
  Modelled from the spec: the enumerations \<^verbatim>\<open>SnifferState\<close> (\<^verbatim>\<open>RadioTask.h\<close>) and
  \<^verbatim>\<open>PHY_Mode\<close> (\<^verbatim>\<open>RadioWrapper.h\<close>) are declared outside the sources. The first has
  the two values the code names, SCANNING and FOLLOWING in the specification. A
  \<^verbatim>\<open>PHY_Mode\<close> is kept as the byte of its enumerator, since \<^verbatim>\<open>reactToPDU\<close> stores a
  payload byte into it unchecked; \<^verbatim>\<open>PHY_1M\<close> is the first enumerator.
\<close>

datatype SnifferState = ADVERT | DATA

type_synonym PHY_Mode = u8

definition PHY_1M :: PHY_Mode where
  "PHY_1M = 0"

record RadioConfig =
  chanMap :: u64
  hopIntervalTicks :: u32
  offset :: u16
  phy :: PHY_Mode

text \<open>
  The file's static variables, and a count of the calls of \<^verbatim>\<open>RadioWrapper_stop\<close>, the
  one effect of \<^verbatim>\<open>reactToPDU\<close> outside them.
\<close>

record radio_state =
  mapping_table :: "u8 list"
  snifferState :: SnifferState
  rconf :: RadioConfig
  accessAddress :: u32
  curUnmapped :: u8
  hopIncrement :: u8
  crcInit :: u32
  nextHopTime :: u32
  connEventCount :: u32
  next_rconf :: RadioConfig
  nextInstant :: u32
  firstPacket :: bool
  anchorOffset :: "u32 list"
  aoInd :: u32
  stopCalls :: nat

text \<open>The arrays have their declared sizes, and the write index stays inside its array.\<close>

definition wellFormed :: "radio_state \<Rightarrow> bool" where
  "wellFormed st = (length (mapping_table st) = 37 \<and> length (anchorOffset st) = 16 \<and>
            unat (aoInd st) < 16)"

text \<open>Static storage starts zeroed; \<^verbatim>\<open>snifferState\<close> starts as \<^verbatim>\<open>ADVERT\<close>.\<close>

definition initState :: radio_state where
  "initState =
     \<lparr>mapping_table = replicate 37 0, snifferState = ADVERT,
      rconf = \<lparr>chanMap = 0, hopIntervalTicks = 0, offset = 0, phy = 0\<rparr>,
      accessAddress = 0, curUnmapped = 0, hopIncrement = 0, crcInit = 0, nextHopTime = 0,
      connEventCount = 0,
      next_rconf = \<lparr>chanMap = 0, hopIntervalTicks = 0, offset = 0, phy = 0\<rparr>,
      nextInstant = 0, firstPacket = False, anchorOffset = replicate 16 0, aoInd = 0,
      stopCalls = 0\<rparr>"

section \<open>The PDU reactor (\<^verbatim>\<open>reactToPDU\<close>)\<close>

text \<open>The body of the CONNECT\_IND branch, lines 198 to 223.\<close>

definition connectInd :: "BLE_Frame \<Rightarrow> radio_state \<Rightarrow> fault + radio_state" where
  "connectInd frame st =
     (let p = pData frame;
          st1 = st\<lparr>accessAddress := load32 p 14,
                   hopIncrement := p 35 AND 0x1F,
                   crcInit := load32 p 18 AND 0xFFFFFF\<rparr>;
          st2 = st1\<lparr>curUnmapped := hopIncrement st1\<rparr>;
          st3 = st2\<lparr>rconf := (rconf st2)\<lparr>chanMap := load40 p 30\<rparr>\<rparr>
      in case computeMap1 (chanMap (rconf st3)) (mapping_table st3) of
           Inl e \<Rightarrow> Inl e
         | Inr t \<Rightarrow>
             (let st4 = st3\<lparr>mapping_table := t\<rparr>;
                  WinOffset = load16 p 22;
                  Interval = load16 p 24;
                  st5 = st4\<lparr>nextHopTime :=
                          push_bit 2 (timestamp frame) + 4000 + of_nat (unat WinOffset * 5000)\<rparr>;
                  st6 = st5\<lparr>rconf :=
                          (rconf st5)\<lparr>hopIntervalTicks := of_nat (unat Interval * 5000)\<rparr>\<rparr>;
                  st7 = st6\<lparr>nextHopTime := nextHopTime st6 + hopIntervalTicks (rconf st6)\<rparr>
              in Inr (st7\<lparr>rconf := (rconf st7)\<lparr>phy := PHY_1M\<rparr>,
                          connEventCount := 0,
                          nextInstant := 0xFFFFFFFF,
                          snifferState := DATA,
                          stopCalls := stopCalls st7 + 1\<rparr>)))"

text \<open>The clock synchronisation block at the head of the data-channel branch, lines 235 to 241.\<close>

definition recordAnchor :: "BLE_Frame \<Rightarrow> radio_state \<Rightarrow> fault + radio_state" where
  "recordAnchor frame st =
     (if firstPacket st
      then (if length (anchorOffset st) \<le> unat (aoInd st) then Inl OutOfBounds
            else Inr (st\<lparr>anchorOffset := (anchorOffset st)[unat (aoInd st) :=
                            push_bit 2 (timestamp frame) + hopIntervalTicks (rconf st)
                              - nextHopTime st],
                          aoInd := (aoInd st + 1) AND 0xF,
                          firstPacket := False\<rparr>))
      else Inr st)"

text \<open>The \<^verbatim>\<open>switch (opcode)\<close> of the control PDUs, lines 264 to 294.\<close>

definition controlPDU :: "u8 \<Rightarrow> BLE_Frame \<Rightarrow> radio_state \<Rightarrow> radio_state" where
  "controlPDU opcode frame st =
     (let p = pData frame in
      if opcode = 0x00 then
        st\<lparr>next_rconf := \<lparr>chanMap = chanMap (rconf st),
                          hopIntervalTicks = of_nat (unat (load16 p 6) * 5000),
                          offset = load16 p 4,
                          phy = phy (rconf st)\<rparr>,
            nextInstant := ucast (load16 p 12)\<rparr>
      else if opcode = 0x01 then
        st\<lparr>next_rconf := \<lparr>chanMap = load40 p 3,
                          hopIntervalTicks = hopIntervalTicks (rconf st),
                          offset = 0,
                          phy = phy (rconf st)\<rparr>,
            nextInstant := ucast (load16 p 8)\<rparr>
      else if opcode = 0x02 then
        st\<lparr>snifferState := ADVERT\<rparr>
      else if opcode = 0x18 then
        st\<lparr>next_rconf := \<lparr>chanMap = chanMap (rconf st),
                          hopIntervalTicks = hopIntervalTicks (rconf st),
                          offset = 0,
                          phy = p 3\<rparr>,
            nextInstant := ucast (load16 p 5)\<rparr>
      else st)"

definition reactToPDU :: "BLE_Frame \<Rightarrow> radio_state \<Rightarrow> fault + radio_state" where
  "reactToPDU frame st =
     (if 37 \<le> channel frame then
        (if length_f frame < 2 then Inr st
         else
           (let pduType = pData frame 0 AND 0xF;
                ChSel = (if pData frame 0 AND 0x20 \<noteq> 0 then 1 else 0 :: u8);
                advLen = pData frame 1
            in if length_f frame - 2 < unat advLen then Inr st
               else if pduType = 0x5 then
                 (if advLen \<noteq> 34 then Inr st
                  else if ChSel \<noteq> 0 then Inr st
                  else connectInd frame st)
               else Inr st))
      else
        (case recordAnchor frame st of
           Inl e \<Rightarrow> Inl e
         | Inr st1 \<Rightarrow>
             if length_f frame < 3 then Inr st1
             else
               (let LLID = pData frame 0 AND 0x3;
                    datLen = pData frame 1;
                    opcode = pData frame 2
                in if LLID \<noteq> 0x3 then Inr st1
                   else if length_f frame - 2 < unat datLen then Inr st1
                   else Inr (controlPDU opcode frame st1))))"

section \<open>The clock sync filter (\<^verbatim>\<open>_compare\<close>, \<^verbatim>\<open>median\<close>)\<close>

text \<open>
  \<^verbatim>\<open>_compare\<close> reads both words as \<^verbatim>\<open>int32_t\<close> and subtracts them as \<^verbatim>\<open>int\<close>; a
  difference outside the 32-bit range is the signed overflow that C leaves undefined.
\<close>

definition compare_i32 :: "u32 \<Rightarrow> u32 \<Rightarrow> fault + int" where
  "compare_i32 a b =
     (let d = sint a - sint b in
      if - (2 ^ 31) \<le> d \<and> d < 2 ^ 31 then Inr d else Inl SignedOverflow)"

text \<open>
  \<^verbatim>\<open>qsort\<close> is the C library's. The standard fixes its result where the comparison
  function orders the array consistently, and there every sorting algorithm returns
  the same array, since two words that \<^verbatim>\<open>_compare\<close> finds equal are the same word. The
  model sorts by insertion with \<^verbatim>\<open>_compare\<close> and passes a fault of the comparison on.
  Where some pair of the array makes \<^verbatim>\<open>_compare\<close> overflow, the library's result hangs
  on the pairs its own algorithm compares, and the model's array is that of an
  insertion sort only: nothing below is concluded from it there.
\<close>

fun insertBy :: "u32 \<Rightarrow> u32 list \<Rightarrow> fault + u32 list" where
  "insertBy x [] = Inr [x]"
| "insertBy x (y # ys) =
     (case compare_i32 x y of
        Inl e \<Rightarrow> Inl e
      | Inr d \<Rightarrow>
          if d \<le> 0 then Inr (x # y # ys)
          else (case insertBy x ys of Inl e \<Rightarrow> Inl e | Inr zs \<Rightarrow> Inr (y # zs)))"

fun qsort :: "u32 list \<Rightarrow> fault + u32 list" where
  "qsort [] = Inr []"
| "qsort (x # xs) = (case qsort xs of Inl e \<Rightarrow> Inl e | Inr ys \<Rightarrow> insertBy x ys)"

text \<open>
  \<^verbatim>\<open>median\<close> sorts the first \<open>sz\<close> elements of the array it is handed, in place, and
  returns the element at \<^verbatim>\<open>sz >> 1\<close>: the result here is the array as it is left,
  with the value returned.
\<close>

definition median :: "u32 list \<Rightarrow> nat \<Rightarrow> fault + (u32 list \<times> u32)" where
  "median arr sz =
     (if length arr < sz then Inl OutOfBounds
      else (case qsort (take sz arr) of
              Inl e \<Rightarrow> Inl e
            | Inr sorted_part \<Rightarrow>
                (let arr' = sorted_part @ drop sz arr in
                 if length arr' \<le> sz div 2 then Inl OutOfBounds
                 else Inr (arr', arr' ! (sz div 2)))))"

definition AO_TARG :: u32 where
  "AO_TARG = 4000"

section \<open>The connection event (\<^verbatim>\<open>radioTaskFunction\<close>, lines 110 to 126)\<close>

text \<open>
  What the \<^verbatim>\<open>DATA\<close> branch of the task's loop does once the receive window has
  closed, in four steps: the hop and the event counter, the pending update, the hop
  interval, and the clock correction of every sixteenth event. The assignment of line
  107, which sets the first-packet flag as each receive window opens, and the receive
  call itself are not among these steps: a run of connection events alone records no
  anchor.
\<close>

definition hopAdvance :: "radio_state \<Rightarrow> radio_state" where
  "hopAdvance st =
     st\<lparr>curUnmapped := of_nat ((unat (curUnmapped st) + unat (hopIncrement st)) mod 37),
        connEventCount := connEventCount st + 1\<rparr>"

text \<open>The condition of the \<^verbatim>\<open>if\<close> of lines 112 and 113.\<close>

definition instantReached :: "radio_state \<Rightarrow> bool" where
  "instantReached st =
     (nextInstant st \<noteq> 0xFFFFFFFF \<and> (nextInstant st - connEventCount st) AND 0xFFFF = 0)"

definition applyPending :: "radio_state \<Rightarrow> fault + radio_state" where
  "applyPending st =
     (if instantReached st
      then
        (let st1 = st\<lparr>rconf := next_rconf st\<rparr>;
             st2 = st1\<lparr>nextHopTime :=
                     nextHopTime st1 + of_nat (unat (offset (rconf st1)) * 5000)\<rparr>
         in case computeMap1 (chanMap (rconf st2)) (mapping_table st2) of
              Inl e \<Rightarrow> Inl e
            | Inr t \<Rightarrow> Inr (st2\<lparr>mapping_table := t, nextInstant := 0xFFFFFFFF\<rparr>))
      else Inr st)"

definition clockSync :: "radio_state \<Rightarrow> fault + radio_state" where
  "clockSync st =
     (if connEventCount st AND 0xF = 0xF
      then (case median (anchorOffset st) 16 of
              Inl e \<Rightarrow> Inl e
            | Inr (arr', medAnchorOffset) \<Rightarrow>
                Inr (st\<lparr>anchorOffset := arr',
                        nextHopTime := nextHopTime st + (medAnchorOffset - AO_TARG)\<rparr>))
      else Inr st)"

definition connEvent :: "radio_state \<Rightarrow> fault + radio_state" where
  "connEvent st =
     (case applyPending (hopAdvance st) of
        Inl e \<Rightarrow> Inl e
      | Inr st1 \<Rightarrow>
          clockSync (st1\<lparr>nextHopTime := nextHopTime st1 + hopIntervalTicks (rconf st1)\<rparr>))"

fun connEvents :: "nat \<Rightarrow> radio_state \<Rightarrow> fault + radio_state" where
  "connEvents 0 st = Inr st"
| "connEvents (Suc n) st =
     (case connEvent st of Inl e \<Rightarrow> Inl e | Inr st' \<Rightarrow> connEvents n st')"

section \<open>The specification's conditions\<close>

text \<open>
  The applier's condition in the words of the specification: an update is staged, and
  the instant minus the event counter is zero modulo 65536, over the integers.
\<close>

definition updateDue :: "radio_state \<Rightarrow> bool" where
  "updateDue st =
     (nextInstant st \<noteq> 0xFFFFFFFF \<and>
      (int (unat (nextInstant st)) - int (unat (connEventCount st))) mod 65536 = 0)"

text \<open>
  The histories on which \<^verbatim>\<open>_compare\<close> cannot overflow: any two samples, read as
  signed 32-bit values, are less than \<open>2 ^ 31\<close> apart.
\<close>

definition inRange :: "u32 list \<Rightarrow> bool" where
  "inRange xs = (\<forall>a \<in> set xs. \<forall>b \<in> set xs. sint a - sint b < 2 ^ 31)"

text \<open>
  The frames that reach the body of the CONNECT\_IND branch, and the frames that reach
  one of the three cases of the \<^verbatim>\<open>switch\<close> that write \<^verbatim>\<open>nextInstant\<close>.
\<close>

definition acceptsConnect :: "BLE_Frame \<Rightarrow> bool" where
  "acceptsConnect frame =
     (37 \<le> channel frame \<and> 2 \<le> length_f frame \<and>
      unat (pData frame 1) \<le> length_f frame - 2 \<and>
      pData frame 0 AND 0xF = 0x5 \<and> pData frame 1 = 34 \<and> pData frame 0 AND 0x20 = 0)"

definition stagesUpdate :: "BLE_Frame \<Rightarrow> bool" where
  "stagesUpdate frame =
     (channel frame < 37 \<and> 3 \<le> length_f frame \<and> pData frame 0 AND 0x3 = 0x3 \<and>
      unat (pData frame 1) \<le> length_f frame - 2 \<and>
      (pData frame 2 = 0x00 \<or> pData frame 2 = 0x01 \<or> pData frame 2 = 0x18))"

text \<open>
  A run of the task is a sequence of frames handed to \<^verbatim>\<open>reactToPDU\<close> and of
  connection events. Beside the state it carries one bit of bookkeeping that the code
  does not have: whether a control PDU has staged an update that has neither been
  applied nor been discarded by a new connection since.
\<close>

datatype operation = Receive BLE_Frame | ConnEvent

fun trackedStep :: "operation \<Rightarrow> radio_state \<times> bool \<Rightarrow> fault + radio_state \<times> bool" where
  "trackedStep (Receive frame) (st, staged) =
     (case reactToPDU frame st of
        Inl e \<Rightarrow> Inl e
      | Inr st' \<Rightarrow>
          Inr (st', if acceptsConnect frame then False
                    else if stagesUpdate frame then True else staged))"
| "trackedStep ConnEvent (st, staged) =
     (case connEvent st of
        Inl e \<Rightarrow> Inl e
      | Inr st' \<Rightarrow> Inr (st', if instantReached (hopAdvance st) then False else staged))"

fun trackedRun :: "operation list \<Rightarrow> radio_state \<times> bool \<Rightarrow> fault + radio_state \<times> bool" where
  "trackedRun [] s = Inr s"
| "trackedRun (opn # ops) s =
     (case trackedStep opn s of Inl e \<Rightarrow> Inl e | Inr s' \<Rightarrow> trackedRun ops s')"

definition stagedInv :: "radio_state \<times> bool \<Rightarrow> bool" where
  "stagedInv s = (snd s \<longleftrightarrow> nextInstant (fst s) \<noteq> 0xFFFFFFFF)"

section \<open>Example frames and states\<close>

text \<open>A receive buffer holding the given bytes, zero after them.\<close>

definition bufferOf :: "u8 list \<Rightarrow> nat \<Rightarrow> u8" where
  "bufferOf bs k = (if k < length bs then bs ! k else 0)"

text \<open>
  A CONNECT\_IND of 34 bytes behind the two header bytes: the addresses at offsets 2 to
  13, the access address \<open>0x44332211\<close> at 14, the CRC seed \<open>0xCCBBAA\<close> at 18,
  window offset 3 at 22, interval 6 at 24, the channel map at 30, and hop increment 7
  in the low five bits of byte 35.
\<close>

definition connectBytes :: "u8 \<Rightarrow> u8 list \<Rightarrow> u8 list" where
  "connectBytes hdr chm =
     [hdr, 34, 1, 2, 3, 4, 5, 6, 7, 8, 9, 10, 11, 12,
      0x11, 0x22, 0x33, 0x44, 0xAA, 0xBB, 0xCC, 2, 3, 0, 6, 0, 0, 0, 100, 0] @ chm @ [0x27]"

definition connectFrame :: "u8 \<Rightarrow> u8 list \<Rightarrow> BLE_Frame" where
  "connectFrame hdr chm =
     \<lparr>timestamp = 1000, length_f = 36, channel = 37, pData = bufferOf (connectBytes hdr chm)\<rparr>"

definition connectReq :: BLE_Frame where
  "connectReq = connectFrame 0x05 [0xFF, 0xFF, 0xFF, 0xFF, 0x1F]"

definition connectReqNoChannels :: BLE_Frame where
  "connectReqNoChannels = connectFrame 0x05 [0, 0, 0, 0, 0]"

text \<open>Data-channel frames; a control PDU has LLID 3 and its body length in byte 1.\<close>

definition dataFrame :: "u8 list \<Rightarrow> BLE_Frame" where
  "dataFrame bs = \<lparr>timestamp = 1000, length_f = length bs, channel = 5, pData = bufferOf bs\<rparr>"

definition controlFrame :: "u8 list \<Rightarrow> BLE_Frame" where
  "controlFrame body = dataFrame ([0x03, of_nat (length body)] @ body)"

text \<open>
  An LL\_CONNECTION\_UPDATE\_IND with window offset 2, interval 8 and instant 5, and an
  LL\_CHANNEL\_MAP\_IND with instant 5 whose map has no channel.
\<close>

definition connUpdateInd :: BLE_Frame where
  "connUpdateInd = controlFrame [0x00, 1, 2, 0, 8, 0, 0, 0, 200, 0, 5, 0]"

definition chanMapIndNoChannels :: BLE_Frame where
  "chanMapIndNoChannels = controlFrame [0x01, 0, 0, 0, 0, 0, 5, 0]"

text \<open>
  A control PDU of three bytes, LLID 3, body length 1 and opcode 0x00, which passes the
  length checks of the data-channel branch. The receive buffer behind it still holds
  the rest of an earlier connection update, ending in the two bytes given.
\<close>

definition staleUpdate :: "u8 \<Rightarrow> u8 \<Rightarrow> BLE_Frame" where
  "staleUpdate lo hi =
     \<lparr>timestamp = 1000, length_f = 3, channel = 5,
      pData = bufferOf [0x03, 0x01, 0x00, 1, 2, 0, 8, 0, 0, 0, 200, 0, lo, hi]\<rparr>"

text \<open>
  States of a followed connection: at the start of an event, with a staged update of
  map \<open>m\<close> at a given instant and event count, and with a given anchor history at an
  event that runs the clock sync filter.
\<close>

definition firstEvent :: radio_state where
  "firstEvent = initState\<lparr>snifferState := DATA, firstPacket := True\<rparr>"

definition pendingState :: "u64 \<Rightarrow> u32 \<Rightarrow> u32 \<Rightarrow> radio_state" where
  "pendingState m instant c =
     initState\<lparr>mapping_table := map of_nat [0..<37],
               snifferState := DATA,
               rconf := \<lparr>chanMap = 0x1FFFFFFFFF, hopIntervalTicks = 30000, offset = 0, phy = 0\<rparr>,
               curUnmapped := 7, hopIncrement := 7,
               connEventCount := c,
               next_rconf := \<lparr>chanMap = m, hopIntervalTicks = 40000, offset = 2, phy = 0\<rparr>,
               nextInstant := instant\<rparr>"

definition syncState :: "u32 list \<Rightarrow> radio_state" where
  "syncState xs = (pendingState 3 0xFFFFFFFF 15)\<lparr>anchorOffset := xs\<rparr>"

definition descHistory :: "u32 list" where
  "descHistory = [4016, 4015, 4014, 4013, 4012, 4011, 4010, 4009,
                  4008, 4007, 4006, 4005, 4004, 4003, 4002, 4001]"

definition overflowHistory :: "u32 list" where
  "overflowHistory = replicate 8 0x7FFFFFFC @ replicate 8 0x80000000"

section \<open>The channel map engine computes the table of the algorithm\<close>

lemma chanUsed_bit: "chanUsed m i = bit m i"
  unfolding chanUsed_def
  by (simp add: and_exp_eq_0_iff_not_bit)

lemma fold_update_upt:
  "k \<le> length mt \<Longrightarrow> fold (\<lambda>i t. t[i := f i]) [0..<k] mt = map f [0..<k] @ drop k mt"
proof (induction k)
  case 0
  show ?case by simp
next
  case (Suc k)
  then have k: "k < length mt" by simp
  have "drop k mt = mt ! k # drop (Suc k) mt"
    using k by (simp add: Cons_nth_drop_Suc)
  with Suc show ?case
    by (simp add: list_update_append)
qed

text \<open>
  After the first \<open>k\<close> rounds of the counting loop the written cells are the used
  channels below \<open>k\<close>, in ascending order, and the count is their number.
\<close>

lemma countLoop_upt:
  "k \<le> 37 \<Longrightarrow>
   fold (countStep m) [0..<k] (replicate 37 None, 0) =
     (map (\<lambda>i. Some (of_nat i)) (filter (bit m) [0..<k]) @
        replicate (37 - length (filter (bit m) [0..<k])) None,
      length (filter (bit m) [0..<k]))"
proof (induction k)
  case 0
  show ?case by simp
next
  case (Suc k)
  let ?us = "filter (bit m) [0..<k]"
  have "length ?us \<le> k"
    using length_filter_le [of "bit m" "[0..<k]"] by simp
  with Suc.prems have "length ?us < 37" by simp
  then have rep: "replicate (37 - length ?us) (None :: u8 option) =
      None # replicate (37 - Suc (length ?us)) None"
    by (metis Suc_diff_Suc replicate_Suc)
  from Suc show ?case
    by (simp add: countStep_def chanUsed_bit list_update_append rep)
qed

lemma countLoop_eq:
  "countLoop m =
     (map (\<lambda>i. Some (of_nat i)) (remap m) @ replicate (37 - usedCount m) None, usedCount m)"
  unfolding countLoop_def remap_def usedCount_def
  by (rule countLoop_upt) simp

lemma usedCount_le: "usedCount m \<le> 37"
  unfolding usedCount_def remap_def
  using length_filter_le [of "bit m" "[0..<37]"] by simp

lemma mapLoop_fold:
  assumes "0 < usedCount m"
  shows "mapLoop m (map (\<lambda>i. Some (of_nat i)) (remap m) @ replicate (37 - usedCount m) None)
           (usedCount m) js mt
         = Inr (fold (\<lambda>i t. t[i := csa1 m i]) js mt)"
proof (induction js arbitrary: mt)
  case Nil
  show ?case by simp
next
  case (Cons j js)
  let ?rt = "map (\<lambda>i. Some (of_nat i :: u8)) (remap m) @ replicate (37 - usedCount m) None"
  have idx: "j mod usedCount m < length (remap m)"
    using assms by (simp add: usedCount_def)
  then have rd: "?rt ! (j mod usedCount m) = Some (of_nat (remap m ! (j mod usedCount m)))"
    by (simp add: nth_append)
  have len: "\<not> length ?rt \<le> j mod usedCount m"
    using idx by simp
  show ?case
  proof (cases "bit m j")
    case True
    then show ?thesis by (simp add: chanUsed_bit csa1_def Cons.IH)
  next
    case False
    then show ?thesis
      using assms rd len by (simp add: chanUsed_bit csa1_def Cons.IH Let_def del: length_append)
  qed
qed

lemma computeMap1_table:
  assumes "0 < usedCount m" and "length mt = 37"
  shows "computeMap1 m mt = Inr (csa1Table m)"
proof -
  have "fold (\<lambda>i t. t[i := csa1 m i]) [0..<37] mt = map (csa1 m) [0..<37] @ drop 37 mt"
    by (rule fold_update_upt) (simp add: assms)
  then show ?thesis
    using assms by (simp add: computeMap1_def countLoop_eq mapLoop_fold csa1Table_def)
qed

text \<open>With no used channel the first round of the second loop divides by zero.\<close>

lemma computeMap1_zero:
  assumes "usedCount m = 0"
  shows "computeMap1 m mt = Inl DivByZero"
proof -
  have "0 \<notin> set (remap m)" using assms by (simp add: usedCount_def)
  then have nb: "\<not> bit m 0" by (simp add: remap_def)
  have up: "[0..<37] = 0 # [1..<37]" by (simp add: upt_rec)
  show ?thesis
    using assms nb by (simp add: computeMap1_def countLoop_eq up chanUsed_bit)
qed

lemma csa1Table_nth: "i < 37 \<Longrightarrow> csa1Table m ! i = csa1 m i"
  by (simp add: csa1Table_def del: upt_Suc)

lemma length_csa1Table: "length (csa1Table m) = 37"
  by (simp add: csa1Table_def)

text \<open>
  Claim C1. For every channel map with at least two of the bits 0 to 36 set,
  \<^verbatim>\<open>computeMap1\<close> returns and leaves a table of 37 entries in which a used channel maps
  to itself and an unused index \<open>i\<close> maps to \<open>remap ! (i mod usedCount)\<close>, \<open>remap\<close>
  being the ascending list of the set bits. With all 37 bits set the table is the
  identity, and the table is a function of the bitmap alone: whatever the global table
  held before, the result is the same.
\<close>

theorem computeMap1_csa1:
  assumes "2 \<le> usedCount m" and "length mt = 37"
  shows "\<exists>t. computeMap1 m mt = Inr t \<and> length t = 37 \<and>
           (\<forall>i<37. t ! i = (if bit m i then of_nat i
                             else of_nat (remap m ! (i mod usedCount m)))) \<and>
           ((\<forall>i<37. bit m i) \<longrightarrow> (\<forall>i<37. t ! i = of_nat i)) \<and>
           (\<forall>mt'. length mt' = 37 \<longrightarrow> computeMap1 m mt' = Inr t)"
proof -
  from assms have used: "0 < usedCount m" by simp
  have "computeMap1 m mt = Inr (csa1Table m)"
    using used assms(2) by (rule computeMap1_table)
  moreover have "\<forall>i<37. csa1Table m ! i =
      (if bit m i then of_nat i else of_nat (remap m ! (i mod usedCount m)))"
    by (simp add: csa1Table_nth csa1_def)
  moreover have "(\<forall>i<37. bit m i) \<longrightarrow> (\<forall>i<37. csa1Table m ! i = of_nat i)"
    by (simp add: csa1Table_nth csa1_def)
  moreover have "\<forall>mt'. length mt' = 37 \<longrightarrow> computeMap1 m mt' = Inr (csa1Table m)"
    using used by (simp add: computeMap1_table)
  ultimately show ?thesis
    using length_csa1Table by blast
qed

text \<open>
  The map with the bits 0 and 1 set, the example of the specification: index 2 folds
  onto \<open>remap ! 0 = 0\<close> and index 3 onto \<open>remap ! 1 = 1\<close>.
\<close>

theorem computeMap1_csa1_witness:
  "2 \<le> usedCount 3 \<and> length (replicate 37 (0::u8)) = 37 \<and>
   (\<exists>t. computeMap1 3 (replicate 37 0) = Inr t \<and>
        t ! 0 = 0 \<and> t ! 1 = 1 \<and> t ! 2 = 0 \<and> t ! 3 = 1)"
proof -
  have u: "usedCount 3 = 2" by code_simp
  have r: "remap 3 = [0, 1]" by code_simp
  have h: "2 \<le> usedCount 3" by (simp add: u)
  have l: "length (replicate 37 (0::u8)) = 37" by simp
  from computeMap1_csa1 [OF h l] obtain t where
    t: "computeMap1 3 (replicate 37 0) = Inr t"
    and n: "\<forall>i<37. t ! i = (if bit (3::u64) i then of_nat i
                             else of_nat (remap 3 ! (i mod usedCount 3)))"
    by blast
  have "t ! 0 = 0" using n [rule_format, of 0] by simp
  moreover have "t ! 1 = 1" using n [rule_format, of 1] by (simp add: bit_iff_odd)
  moreover have "t ! 2 = 0" using n [rule_format, of 2] by (simp add: u r bit_iff_odd)
  moreover have "t ! 3 = 1" using n [rule_format, of 3] by (simp add: u r bit_iff_odd)
  ultimately show ?thesis using h l t by blast
qed

section \<open>Words, masks and little-endian fields\<close>

lemma unat_u8_lt: "unat (b :: u8) < 256"
  using unsigned_less [of b, where 'a = nat] by simp

lemma unat_u16_lt: "unat (x :: u16) < 65536"
  using unsigned_less [of x, where 'a = nat] by simp

lemma unat_of_nat_small:
  "n < 2 ^ LENGTH('a) \<Longrightarrow> unat (of_nat n :: 'a::len word) = n"
  by (simp add: unat_of_nat)

lemma unat_load16: "unat (load16 p k) = unat (p k) + 256 * unat (p (k + 1))"
proof -
  have "leBytes [p k, p (k + 1)] < 2 ^ LENGTH(16)"
    using unat_u8_lt [of "p k"] unat_u8_lt [of "p (k + 1)"] by simp
  then have "unat (load16 p k) = leBytes [p k, p (k + 1)]"
    unfolding load16_def by (rule unat_of_nat_small)
  then show ?thesis by simp
qed

lemma unat_load32:
  "unat (load32 p k) =
     unat (p k) + 256 * unat (p (k + 1)) + 65536 * unat (p (k + 2)) + 16777216 * unat (p (k + 3))"
proof -
  have "leBytes [p k, p (k + 1), p (k + 2), p (k + 3)] < 2 ^ LENGTH(32)"
    using unat_u8_lt [of "p k"] unat_u8_lt [of "p (k + 1)"] unat_u8_lt [of "p (k + 2)"]
      unat_u8_lt [of "p (k + 3)"] by simp
  then have "unat (load32 p k) = leBytes [p k, p (k + 1), p (k + 2), p (k + 3)]"
    unfolding load32_def by (rule unat_of_nat_small)
  then show ?thesis by simp
qed

lemma unat_load40:
  "unat (load40 p k) =
     unat (p k) + 256 * unat (p (k + 1)) + 65536 * unat (p (k + 2)) + 16777216 * unat (p (k + 3))
       + 4294967296 * unat (p (k + 4))"
proof -
  have "leBytes [p k, p (k + 1), p (k + 2), p (k + 3), p (k + 4)] < 2 ^ LENGTH(64)"
    using unat_u8_lt [of "p k"] unat_u8_lt [of "p (k + 1)"] unat_u8_lt [of "p (k + 2)"]
      unat_u8_lt [of "p (k + 3)"] unat_u8_lt [of "p (k + 4)"] by simp
  then have "unat (load40 p k) = leBytes [p k, p (k + 1), p (k + 2), p (k + 3), p (k + 4)]"
    unfolding load40_def by (rule unat_of_nat_small)
  then show ?thesis by simp
qed

lemma unat_ucast_u16: "unat (ucast (x :: u16) :: u32) = unat x"
  using unat_u16_lt [of x] by (simp add: unsigned_ucast_eq take_bit_eq_mod)

lemma ucast_u16_not_sentinel: "(ucast (x :: u16) :: u32) \<noteq> 0xFFFFFFFF"
proof
  assume "(ucast x :: u32) = 0xFFFFFFFF"
  then have "unat (ucast x :: u32) = unat (0xFFFFFFFF :: u32)" by simp
  then show False using unat_u16_lt [of x] by (simp add: unat_ucast_u16)
qed

lemma unat_ticks_ucast: "unat ((ucast (x :: u16) :: u32) * 5000) = unat x * 5000"
  using unat_u16_lt [of x] by (simp add: unat_word_ariths unat_ucast_u16)

lemma chsel_bit: "((b :: u8) AND 0x20 \<noteq> 0) = bit b 5"
proof -
  have "(0x20 :: u8) = 2 ^ 5" by simp
  then show ?thesis by (simp only: and_exp_eq_0_iff_not_bit) simp
qed

lemma unat_and_1F: "unat ((b :: u8) AND 0x1F) = unat b mod 32"
proof -
  have "b AND 0x1F = take_bit 5 b"
    by (simp add: take_bit_eq_mask mask_eq_exp_minus_1)
  moreover have "unat (take_bit 5 b) = take_bit 5 (unat b)"
    by (rule unsigned_take_bit_eq)
  ultimately show ?thesis by (simp add: take_bit_eq_mod)
qed

lemma unat_and_FFFFFF: "unat ((w :: u32) AND 0xFFFFFF) = unat w mod 16777216"
proof -
  have "w AND 0xFFFFFF = take_bit 24 w"
    by (simp add: take_bit_eq_mask mask_eq_exp_minus_1)
  moreover have "unat (take_bit 24 w) = take_bit 24 (unat w)"
    by (rule unsigned_take_bit_eq)
  ultimately show ?thesis by (simp add: take_bit_eq_mod)
qed

lemma unat_aoInd_step: "unat (((x :: u32) + 1) AND 0xF) = (unat x + 1) mod 16"
proof -
  have "(x + 1) AND 0xF = take_bit 4 (x + 1)"
    by (simp add: take_bit_eq_mask mask_eq_exp_minus_1)
  moreover have "unat (take_bit 4 (x + 1)) = take_bit 4 (unat (x + 1))"
    by (rule unsigned_take_bit_eq)
  moreover have "unat (x + 1) = (unat x + 1) mod 4294967296"
    by (simp add: unat_word_ariths)
  moreover have "(unat x + 1) mod 4294967296 mod 16 = (unat x + 1) mod 16"
    by (rule mod_mod_cancel) simp
  ultimately show ?thesis by (simp add: take_bit_eq_mod)
qed

lemma scale_ts: "push_bit 2 (t :: u32) = 4 * t"
  by (simp add: push_bit_eq_mult)

section \<open>The advertising-channel branch\<close>

lemma connect_branch_eq:
  assumes "37 \<le> channel frame" and "2 \<le> length_f frame"
    and "unat (pData frame 1) \<le> length_f frame - 2"
    and "pData frame 0 AND 0xF = 0x5" and "pData frame 1 = 34" and "\<not> bit (pData frame 0) 5"
  shows "reactToPDU frame st = connectInd frame st"
  using assms by (simp add: reactToPDU_def Let_def chsel_bit)

lemma connectInd_table:
  assumes "length (mapping_table st) = 37" and "0 < usedCount (load40 (pData frame) 30)"
  shows "connectInd frame st =
     Inr (st\<lparr>accessAddress := load32 (pData frame) 14,
             hopIncrement := pData frame 35 AND 0x1F,
             crcInit := load32 (pData frame) 18 AND 0xFFFFFF,
             curUnmapped := pData frame 35 AND 0x1F,
             rconf := \<lparr>chanMap = load40 (pData frame) 30,
                       hopIntervalTicks = of_nat (unat (load16 (pData frame) 24) * 5000),
                       offset = offset (rconf st),
                       phy = PHY_1M\<rparr>,
             mapping_table := csa1Table (load40 (pData frame) 30),
             nextHopTime := 4 * timestamp frame + 4000
                + of_nat (unat (load16 (pData frame) 22) * 5000)
                + of_nat (unat (load16 (pData frame) 24) * 5000),
             connEventCount := 0,
             nextInstant := 0xFFFFFFFF,
             snifferState := DATA,
             stopCalls := stopCalls st + 1\<rparr>)"
  using assms by (simp add: connectInd_def Let_def computeMap1_table scale_ts)

lemma connectInd_zero:
  assumes "usedCount (load40 (pData frame) 30) = 0"
  shows "connectInd frame st = Inl DivByZero"
  using assms by (simp add: connectInd_def Let_def computeMap1_zero)

lemma connectFrame_fields:
  "channel (connectFrame h m) = 37" "length_f (connectFrame h m) = 36"
  "timestamp (connectFrame h m) = 1000"
  "pData (connectFrame h m) 0 = h" "pData (connectFrame h m) 1 = 34"
  "pData (connectFrame h m) (Suc 0) = 34"
  by (simp_all add: connectFrame_def connectBytes_def bufferOf_def)

lemma usedCount_0: "usedCount 0 = 0"
  by (simp add: usedCount_def remap_def)

text \<open>
  Claim C4. An advertising-channel frame whose PDU type is CONNECT\_IND and whose
  advertising length is not 34, or whose channel-selection flag (bit 5 of the header)
  is set, leaves the whole state as it was: the machine stays where it is, and no
  parameter, counter or staged update changes.
\<close>

theorem reactToPDU_connect_rejected:
  assumes "37 \<le> channel frame"
    and "pData frame 0 AND 0xF = 0x5"
    and "pData frame 1 \<noteq> 34 \<or> bit (pData frame 0) 5"
  shows "reactToPDU frame st = Inr st"
  using assms by (auto simp add: reactToPDU_def Let_def chsel_bit)

text \<open>The example frame with the channel-selection flag set, received while scanning.\<close>

theorem reactToPDU_connect_rejected_witness:
  "37 \<le> channel (connectFrame 0x25 [0xFF, 0xFF, 0xFF, 0xFF, 0x1F]) \<and>
   pData (connectFrame 0x25 [0xFF, 0xFF, 0xFF, 0xFF, 0x1F]) 0 AND 0xF = 0x5 \<and>
   bit (pData (connectFrame 0x25 [0xFF, 0xFF, 0xFF, 0xFF, 0x1F]) 0) 5 \<and>
   reactToPDU (connectFrame 0x25 [0xFF, 0xFF, 0xFF, 0xFF, 0x1F]) initState = Inr initState"
proof -
  let ?f = "connectFrame 0x25 [0xFF, 0xFF, 0xFF, 0xFF, 0x1F]"
  have c: "37 \<le> channel ?f" by (simp add: connectFrame_def)
  have p0: "pData ?f 0 = 0x25" by (simp add: connectFrame_def connectBytes_def bufferOf_def)
  have t: "pData ?f 0 AND 0xF = 0x5" by (simp add: p0)
  have b: "bit (pData ?f 0) 5" by (simp add: p0)
  then have d: "pData ?f 1 \<noteq> 34 \<or> bit (pData ?f 0) 5" by simp
  from reactToPDU_connect_rejected [OF c t d, of initState] c t b show ?thesis by simp
qed

text \<open>
  Claim C3, with the condition the code needs. For every CONNECT\_IND that passes the
  checks (advertising channel, length at least 2, coherent header length, type 5,
  advertising length 34, channel-selection flag clear) and whose channel map has at
  least one of the channels 0 to 36 set, \<^verbatim>\<open>reactToPDU\<close> returns with the access
  address read at offset 14, the 24-bit CRC seed at 18, the hop increment from the low
  five bits of byte 35 and the map from the five bytes at 30; the unmapped channel is
  the hop increment; the next hop time is four times the timestamp plus 4000 plus
  5000 times the window offset plus the hop interval, itself 5000 times the interval
  field; the event count is 0, the staged instant is the sentinel, and the state is
  \<^verbatim>\<open>DATA\<close>. Offsets count from the start of the PDU, as \<^verbatim>\<open>pData\<close> does.
\<close>

theorem reactToPDU_connect_accepted:
  assumes "37 \<le> channel frame" and "2 \<le> length_f frame"
    and "unat (pData frame 1) \<le> length_f frame - 2"
    and "pData frame 0 AND 0xF = 0x5" and "pData frame 1 = 34" and "\<not> bit (pData frame 0) 5"
    and "length (mapping_table st) = 37"
    and "0 < usedCount (load40 (pData frame) 30)"
  shows "\<exists>st'. reactToPDU frame st = Inr st' \<and>
     unat (accessAddress st') =
       unat (pData frame 14) + 256 * unat (pData frame 15) + 65536 * unat (pData frame 16)
         + 16777216 * unat (pData frame 17) \<and>
     unat (crcInit st') =
       unat (pData frame 18) + 256 * unat (pData frame 19) + 65536 * unat (pData frame 20) \<and>
     unat (hopIncrement st') = unat (pData frame 35) mod 32 \<and>
     unat (chanMap (rconf st')) =
       unat (pData frame 30) + 256 * unat (pData frame 31) + 65536 * unat (pData frame 32)
         + 16777216 * unat (pData frame 33) + 4294967296 * unat (pData frame 34) \<and>
     curUnmapped st' = hopIncrement st' \<and>
     mapping_table st' = csa1Table (chanMap (rconf st')) \<and>
     unat (hopIntervalTicks (rconf st')) =
       (unat (pData frame 24) + 256 * unat (pData frame 25)) * 5000 \<and>
     nextHopTime st' =
       4 * timestamp frame + 4000
         + of_nat ((unat (pData frame 22) + 256 * unat (pData frame 23)) * 5000)
         + hopIntervalTicks (rconf st') \<and>
     phy (rconf st') = PHY_1M \<and> offset (rconf st') = offset (rconf st) \<and>
     connEventCount st' = 0 \<and> nextInstant st' = 0xFFFFFFFF \<and> snifferState st' = DATA \<and>
     stopCalls st' = stopCalls st + 1 \<and>
     next_rconf st' = next_rconf st \<and> firstPacket st' = firstPacket st \<and>
     anchorOffset st' = anchorOffset st \<and> aoInd st' = aoInd st"
proof -
  let ?p = "pData frame"
  let ?st' = "st\<lparr>accessAddress := load32 ?p 14,
             hopIncrement := ?p 35 AND 0x1F,
             crcInit := load32 ?p 18 AND 0xFFFFFF,
             curUnmapped := ?p 35 AND 0x1F,
             rconf := \<lparr>chanMap = load40 ?p 30,
                       hopIntervalTicks = of_nat (unat (load16 ?p 24) * 5000),
                       offset = offset (rconf st),
                       phy = PHY_1M\<rparr>,
             mapping_table := csa1Table (load40 ?p 30),
             nextHopTime := 4 * timestamp frame + 4000
                + of_nat (unat (load16 ?p 22) * 5000)
                + of_nat (unat (load16 ?p 24) * 5000),
             connEventCount := 0,
             nextInstant := 0xFFFFFFFF,
             snifferState := DATA,
             stopCalls := stopCalls st + 1\<rparr>"
  have r: "reactToPDU frame st = Inr ?st'"
    using connect_branch_eq [OF assms(1-6)] connectInd_table [OF assms(7,8)] by simp
  have aa: "unat (accessAddress ?st') =
       unat (?p 14) + 256 * unat (?p 15) + 65536 * unat (?p 16) + 16777216 * unat (?p 17)"
    using unat_load32 [of ?p 14] by simp
  have crc: "unat (crcInit ?st') = unat (?p 18) + 256 * unat (?p 19) + 65536 * unat (?p 20)"
  proof -
    have "unat (?p 18) + 256 * unat (?p 19) + 65536 * unat (?p 20) < 16777216"
      using unat_u8_lt [of "?p 18"] unat_u8_lt [of "?p 19"] unat_u8_lt [of "?p 20"] by simp
    then show ?thesis
      using unat_load32 [of ?p 18] by (simp add: unat_and_FFFFFF)
  qed
  have hop: "unat (hopIncrement ?st') = unat (?p 35) mod 32"
    by (simp add: unat_and_1F)
  have cm: "unat (chanMap (rconf ?st')) =
       unat (?p 30) + 256 * unat (?p 31) + 65536 * unat (?p 32)
         + 16777216 * unat (?p 33) + 4294967296 * unat (?p 34)"
    using unat_load40 [of ?p 30] by simp
  have "unat (hopIntervalTicks (rconf ?st')) = unat (load16 ?p 24) * 5000"
    by (simp add: unat_ticks_ucast)
  then have hi: "unat (hopIntervalTicks (rconf ?st')) =
       (unat (?p 24) + 256 * unat (?p 25)) * 5000"
    by (simp only: unat_load16) simp
  have "nextHopTime ?st' =
       4 * timestamp frame + 4000 + of_nat (unat (load16 ?p 22) * 5000)
         + hopIntervalTicks (rconf ?st')"
    by simp
  then have nh: "nextHopTime ?st' =
       4 * timestamp frame + 4000 + of_nat ((unat (?p 22) + 256 * unat (?p 23)) * 5000)
         + hopIntervalTicks (rconf ?st')"
    by (simp only: unat_load16) simp
  have rest: "curUnmapped ?st' = hopIncrement ?st' \<and>
     mapping_table ?st' = csa1Table (chanMap (rconf ?st')) \<and>
     phy (rconf ?st') = PHY_1M \<and> offset (rconf ?st') = offset (rconf st) \<and>
     connEventCount ?st' = 0 \<and> nextInstant ?st' = 0xFFFFFFFF \<and> snifferState ?st' = DATA \<and>
     stopCalls ?st' = stopCalls st + 1 \<and>
     next_rconf ?st' = next_rconf st \<and> firstPacket ?st' = firstPacket st \<and>
     anchorOffset ?st' = anchorOffset st \<and> aoInd ?st' = aoInd st"
    by simp
  from r aa crc hop cm hi nh rest show ?thesis by blast
qed

text \<open>The example CONNECT\_IND with all 37 channels, received in the initial state.\<close>

theorem reactToPDU_connect_accepted_witness:
  "37 \<le> channel connectReq \<and> 2 \<le> length_f connectReq \<and>
   unat (pData connectReq 1) \<le> length_f connectReq - 2 \<and>
   pData connectReq 0 AND 0xF = 0x5 \<and> pData connectReq 1 = 34 \<and>
   \<not> bit (pData connectReq 0) 5 \<and> length (mapping_table initState) = 37 \<and>
   0 < usedCount (load40 (pData connectReq) 30) \<and>
   (\<exists>st'. reactToPDU connectReq initState = Inr st' \<and>
      unat (accessAddress st') = 0x44332211 \<and> unat (crcInit st') = 0xCCBBAA \<and>
      unat (hopIncrement st') = 7 \<and> curUnmapped st' = hopIncrement st' \<and>
      unat (chanMap (rconf st')) = 0x1FFFFFFFFF \<and>
      unat (hopIntervalTicks (rconf st')) = 30000 \<and>
      nextHopTime st' = 23000 + hopIntervalTicks (rconf st') \<and>
      connEventCount st' = 0 \<and> nextInstant st' = 0xFFFFFFFF \<and> snifferState st' = DATA)"
proof -
  have f: "37 \<le> channel connectReq" "2 \<le> length_f connectReq"
    "unat (pData connectReq 1) \<le> length_f connectReq - 2"
    "pData connectReq 0 AND 0xF = 0x5" "pData connectReq 1 = 34"
    "\<not> bit (pData connectReq 0) 5"
    by (simp_all add: connectReq_def connectFrame_fields)
  have l: "length (mapping_table initState) = 37"
    by (simp add: initState_def)
  have m: "load40 (pData connectReq) 30 = 0x1FFFFFFFFF"
    by (simp add: load40_def connectReq_def connectFrame_def connectBytes_def bufferOf_def)
  have "usedCount 0x1FFFFFFFFF = 37" by code_simp
  with m have u: "0 < usedCount (load40 (pData connectReq) 30)" by simp
  have b: "pData connectReq 14 = 0x11" "pData connectReq 15 = 0x22" "pData connectReq 16 = 0x33"
    "pData connectReq 17 = 0x44" "pData connectReq 18 = 0xAA" "pData connectReq 19 = 0xBB"
    "pData connectReq 20 = 0xCC" "pData connectReq 22 = 3" "pData connectReq 23 = 0"
    "pData connectReq 24 = 6" "pData connectReq 25 = 0" "pData connectReq 30 = 0xFF"
    "pData connectReq 31 = 0xFF" "pData connectReq 32 = 0xFF" "pData connectReq 33 = 0xFF"
    "pData connectReq 34 = 0x1F" "pData connectReq 35 = 0x27" "timestamp connectReq = 1000"
    by (simp_all add: connectReq_def connectFrame_def connectBytes_def bufferOf_def)
  from reactToPDU_connect_accepted [OF f l u, unfolded b] obtain st' where
    "reactToPDU connectReq initState = Inr st'"
    "unat (accessAddress st') = 0x44332211" "unat (crcInit st') = 0xCCBBAA"
    "unat (hopIncrement st') = 7" "curUnmapped st' = hopIncrement st'"
    "unat (chanMap (rconf st')) = 0x1FFFFFFFFF"
    "unat (hopIntervalTicks (rconf st')) = 30000"
    "nextHopTime st' = 23000 + hopIntervalTicks (rconf st')"
    "connEventCount st' = 0" "nextInstant st' = 0xFFFFFFFF" "snifferState st' = DATA"
    by auto
  with f l u show ?thesis by blast
qed

text \<open>
  The same frame with an empty channel map passes every check of the claim, and
  \<^verbatim>\<open>computeMap1\<close> divides by zero before the timing fields are written.
\<close>

theorem reactToPDU_connect_accepted_counterexample:
  "37 \<le> channel connectReqNoChannels \<and> 2 \<le> length_f connectReqNoChannels \<and>
   unat (pData connectReqNoChannels 1) \<le> length_f connectReqNoChannels - 2 \<and>
   pData connectReqNoChannels 0 AND 0xF = 0x5 \<and> pData connectReqNoChannels 1 = 34 \<and>
   \<not> bit (pData connectReqNoChannels 0) 5 \<and>
   snifferState initState = ADVERT \<and>
   reactToPDU connectReqNoChannels initState = Inl DivByZero"
proof -
  have f: "37 \<le> channel connectReqNoChannels" "2 \<le> length_f connectReqNoChannels"
    "unat (pData connectReqNoChannels 1) \<le> length_f connectReqNoChannels - 2"
    "pData connectReqNoChannels 0 AND 0xF = 0x5" "pData connectReqNoChannels 1 = 34"
    "\<not> bit (pData connectReqNoChannels 0) 5"
    by (simp_all add: connectReqNoChannels_def connectFrame_fields)
  have "load40 (pData connectReqNoChannels) 30 = 0"
    by (simp add: load40_def connectReqNoChannels_def connectFrame_def connectBytes_def
        bufferOf_def)
  then have "connectInd connectReqNoChannels initState = Inl DivByZero"
    by (simp add: connectInd_zero usedCount_0)
  with f show ?thesis
    by (simp add: connect_branch_eq initState_def)
qed

section \<open>The data-channel branch\<close>

lemma wellFormed_initState: "wellFormed initState"
  by (simp add: wellFormed_def initState_def)

lemma wellFormed_firstEvent: "wellFormed firstEvent"
  by (simp add: wellFormed_def firstEvent_def initState_def)

lemma recordAnchor_wellFormed:
  assumes "wellFormed st"
  shows "recordAnchor frame st =
     Inr (if firstPacket st
          then st\<lparr>anchorOffset := (anchorOffset st)[unat (aoInd st) :=
                      4 * timestamp frame + hopIntervalTicks (rconf st) - nextHopTime st],
                  aoInd := (aoInd st + 1) AND 0xF,
                  firstPacket := False\<rparr>
          else st)"
  using assms by (simp add: recordAnchor_def wellFormed_def scale_ts)

lemma recordAnchor_frame:
  assumes "recordAnchor frame st = Inr st1"
  shows "rconf st1 = rconf st \<and> next_rconf st1 = next_rconf st \<and>
         nextInstant st1 = nextInstant st \<and> snifferState st1 = snifferState st"
  using assms by (auto simp add: recordAnchor_def split: if_splits)

lemma control_branch_eq:
  assumes "channel frame < 37" and "3 \<le> length_f frame"
    and "pData frame 0 AND 0x3 = 0x3"
    and "unat (pData frame 1) \<le> length_f frame - 2"
    and "recordAnchor frame st = Inr st1"
  shows "reactToPDU frame st = Inr (controlPDU (pData frame 2) frame st1)"
  using assms by (simp add: reactToPDU_def Let_def)

text \<open>
  Claim C6, as the code has it. A data-channel frame shorter than 3 bytes stages
  nothing and changes no connection parameter; but the anchor block runs before the
  length check, so the frame is discarded without any change only when the
  first-packet flag is clear. When it is set, the frame's anchor offset is written at
  the write index, the index advances modulo 16, and the flag is cleared.
\<close>

theorem reactToPDU_short_data:
  assumes "channel frame < 37" and "length_f frame < 3" and "wellFormed st"
  shows "\<exists>st'. reactToPDU frame st = Inr st' \<and>
           (\<not> firstPacket st \<longrightarrow> st' = st) \<and>
           (firstPacket st \<longrightarrow>
              st' = st\<lparr>anchorOffset := (anchorOffset st)[unat (aoInd st) :=
                          4 * timestamp frame + hopIntervalTicks (rconf st) - nextHopTime st],
                        aoInd := (aoInd st + 1) AND 0xF,
                        firstPacket := False\<rparr> \<and>
              unat (aoInd st') = (unat (aoInd st) + 1) mod 16) \<and>
           rconf st' = rconf st \<and> next_rconf st' = next_rconf st \<and>
           nextInstant st' = nextInstant st \<and> snifferState st' = snifferState st \<and>
           nextHopTime st' = nextHopTime st \<and> connEventCount st' = connEventCount st \<and>
           mapping_table st' = mapping_table st \<and> curUnmapped st' = curUnmapped st \<and>
           hopIncrement st' = hopIncrement st \<and> accessAddress st' = accessAddress st \<and>
           crcInit st' = crcInit st \<and> stopCalls st' = stopCalls st"
  using assms by (simp add: reactToPDU_def recordAnchor_wellFormed unat_aoInd_step)

text \<open>An empty data PDU of two bytes, the first frame of an event.\<close>

theorem reactToPDU_short_data_witness:
  "channel (dataFrame [0x01, 0x00]) < 37 \<and> length_f (dataFrame [0x01, 0x00]) < 3 \<and>
   wellFormed firstEvent \<and> firstPacket firstEvent \<and>
   (\<exists>st'. reactToPDU (dataFrame [0x01, 0x00]) firstEvent = Inr st' \<and>
      anchorOffset st' = (replicate 16 0)[0 := 4000] \<and> unat (aoInd st') = 1 \<and> \<not> firstPacket st' \<and>
      nextInstant st' = nextInstant firstEvent)"
proof -
  let ?f = "dataFrame [0x01, 0x00]"
  have c: "channel ?f < 37" and l: "length_f ?f < 3"
    by (simp_all add: dataFrame_def)
  have fp: "firstPacket firstEvent" by (simp add: firstEvent_def)
  from reactToPDU_short_data [OF c l wellFormed_firstEvent] fp obtain st' where
    r: "reactToPDU ?f firstEvent = Inr st'"
    and e: "st' = firstEvent\<lparr>anchorOffset := (anchorOffset firstEvent)[unat (aoInd firstEvent) :=
                          4 * timestamp ?f + hopIntervalTicks (rconf firstEvent) - nextHopTime firstEvent],
                        aoInd := (aoInd firstEvent + 1) AND 0xF,
                        firstPacket := False\<rparr>"
    and u: "unat (aoInd st') = (unat (aoInd firstEvent) + 1) mod 16"
    and n: "nextInstant st' = nextInstant firstEvent"
    by blast
  have "anchorOffset st' = (replicate 16 0)[0 := 4000]"
    by (simp add: e firstEvent_def initState_def dataFrame_def)
  moreover have "unat (aoInd st') = 1"
    by (simp add: u firstEvent_def initState_def)
  moreover have "\<not> firstPacket st'" by (simp add: e)
  ultimately show ?thesis using c l wellFormed_firstEvent fp r n by blast
qed

text \<open>
  The claim as the specification words it fails on that frame: the history, the write
  index and the flag all change.
\<close>

theorem reactToPDU_short_data_counterexample:
  "channel (dataFrame [0x01, 0x00]) < 37 \<and> length_f (dataFrame [0x01, 0x00]) < 3 \<and>
   reactToPDU (dataFrame [0x01, 0x00]) firstEvent =
     Inr (firstEvent\<lparr>anchorOffset := (replicate 16 0)[0 := 4000], aoInd := 1, firstPacket := False\<rparr>) \<and>
   reactToPDU (dataFrame [0x01, 0x00]) firstEvent \<noteq> Inr firstEvent"
  by (simp add: reactToPDU_def recordAnchor_def dataFrame_def firstEvent_def initState_def)

text \<open>
  What the control branch stages, by the offsets at which the code reads
  \<^verbatim>\<open>pData\<close>. For a data-channel frame with LLID 3, at least 3 bytes and the body
  length of byte 1 within the frame, \<^verbatim>\<open>reactToPDU\<close> returns, and beyond the anchor
  block it changes only the following. After opcode 0x00 the staged configuration has
  the active map and PHY, the offset of bytes 4 and 5, 5000 times the interval of
  bytes 6 and 7, and the instant of bytes 12 and 13. After 0x01 it has the map of
  bytes 3 to 7, offset 0, the active interval and PHY, and the instant of bytes 8 and
  9. After 0x18 it has the active map and interval, offset 0, the PHY of byte 3 and
  the instant of bytes 5 and 6. Opcode 0x02 sets the state to \<^verbatim>\<open>ADVERT\<close> and
  nothing else; any other opcode changes nothing. The code does not check that the
  frame reaches these offsets: they are offsets into the receive buffer, inside the
  PDU or behind it.
\<close>

lemma control_stages:
  assumes "channel frame < 37" and "3 \<le> length_f frame"
    and "pData frame 0 AND 0x3 = 0x3"
    and "unat (pData frame 1) \<le> length_f frame - 2"
    and "wellFormed st"
  shows "\<exists>st1 st'. recordAnchor frame st = Inr st1 \<and> reactToPDU frame st = Inr st' \<and>
     (pData frame 2 = 0x00 \<longrightarrow>
        st' = st1\<lparr>next_rconf := next_rconf st', nextInstant := nextInstant st'\<rparr> \<and>
        chanMap (next_rconf st') = chanMap (rconf st) \<and>
        phy (next_rconf st') = phy (rconf st) \<and>
        unat (offset (next_rconf st')) = unat (pData frame 4) + 256 * unat (pData frame 5) \<and>
        unat (hopIntervalTicks (next_rconf st')) =
          (unat (pData frame 6) + 256 * unat (pData frame 7)) * 5000 \<and>
        unat (nextInstant st') = unat (pData frame 12) + 256 * unat (pData frame 13)) \<and>
     (pData frame 2 = 0x01 \<longrightarrow>
        st' = st1\<lparr>next_rconf := next_rconf st', nextInstant := nextInstant st'\<rparr> \<and>
        unat (chanMap (next_rconf st')) =
          unat (pData frame 3) + 256 * unat (pData frame 4) + 65536 * unat (pData frame 5)
            + 16777216 * unat (pData frame 6) + 4294967296 * unat (pData frame 7) \<and>
        offset (next_rconf st') = 0 \<and>
        hopIntervalTicks (next_rconf st') = hopIntervalTicks (rconf st) \<and>
        phy (next_rconf st') = phy (rconf st) \<and>
        unat (nextInstant st') = unat (pData frame 8) + 256 * unat (pData frame 9)) \<and>
     (pData frame 2 = 0x18 \<longrightarrow>
        st' = st1\<lparr>next_rconf := next_rconf st', nextInstant := nextInstant st'\<rparr> \<and>
        chanMap (next_rconf st') = chanMap (rconf st) \<and>
        hopIntervalTicks (next_rconf st') = hopIntervalTicks (rconf st) \<and>
        offset (next_rconf st') = 0 \<and>
        phy (next_rconf st') = pData frame 3 \<and>
        unat (nextInstant st') = unat (pData frame 5) + 256 * unat (pData frame 6)) \<and>
     (pData frame 2 = 0x02 \<longrightarrow> st' = st1\<lparr>snifferState := ADVERT\<rparr>) \<and>
     (pData frame 2 \<noteq> 0x00 \<and> pData frame 2 \<noteq> 0x01 \<and> pData frame 2 \<noteq> 0x02 \<and>
      pData frame 2 \<noteq> 0x18 \<longrightarrow> st' = st1)"
proof -
  obtain st1 where a: "recordAnchor frame st = Inr st1"
    using assms(5) by (simp add: recordAnchor_wellFormed)
  have r: "reactToPDU frame st = Inr (controlPDU (pData frame 2) frame st1)"
    using assms(1-4) a by (rule control_branch_eq)
  note f = recordAnchor_frame [OF a]
  let ?st' = "controlPDU (pData frame 2) frame st1"
  have c0: "pData frame 2 = 0x00 \<longrightarrow>
        ?st' = st1\<lparr>next_rconf := next_rconf ?st', nextInstant := nextInstant ?st'\<rparr> \<and>
        chanMap (next_rconf ?st') = chanMap (rconf st) \<and>
        phy (next_rconf ?st') = phy (rconf st) \<and>
        unat (offset (next_rconf ?st')) = unat (pData frame 4) + 256 * unat (pData frame 5) \<and>
        unat (hopIntervalTicks (next_rconf ?st')) =
          (unat (pData frame 6) + 256 * unat (pData frame 7)) * 5000 \<and>
        unat (nextInstant ?st') = unat (pData frame 12) + 256 * unat (pData frame 13)"
    using unat_load16 [of "pData frame" 4] unat_load16 [of "pData frame" 6]
      unat_load16 [of "pData frame" 12]
    by (simp add: controlPDU_def Let_def f unat_ticks_ucast unat_ucast_u16)
  have c1: "pData frame 2 = 0x01 \<longrightarrow>
        ?st' = st1\<lparr>next_rconf := next_rconf ?st', nextInstant := nextInstant ?st'\<rparr> \<and>
        unat (chanMap (next_rconf ?st')) =
          unat (pData frame 3) + 256 * unat (pData frame 4) + 65536 * unat (pData frame 5)
            + 16777216 * unat (pData frame 6) + 4294967296 * unat (pData frame 7) \<and>
        offset (next_rconf ?st') = 0 \<and>
        hopIntervalTicks (next_rconf ?st') = hopIntervalTicks (rconf st) \<and>
        phy (next_rconf ?st') = phy (rconf st) \<and>
        unat (nextInstant ?st') = unat (pData frame 8) + 256 * unat (pData frame 9)"
    using unat_load40 [of "pData frame" 3] unat_load16 [of "pData frame" 8]
    by (simp add: controlPDU_def Let_def f unat_ucast_u16)
  have c18: "pData frame 2 = 0x18 \<longrightarrow>
        ?st' = st1\<lparr>next_rconf := next_rconf ?st', nextInstant := nextInstant ?st'\<rparr> \<and>
        chanMap (next_rconf ?st') = chanMap (rconf st) \<and>
        hopIntervalTicks (next_rconf ?st') = hopIntervalTicks (rconf st) \<and>
        offset (next_rconf ?st') = 0 \<and>
        phy (next_rconf ?st') = pData frame 3 \<and>
        unat (nextInstant ?st') = unat (pData frame 5) + 256 * unat (pData frame 6)"
    using unat_load16 [of "pData frame" 5]
    by (simp add: controlPDU_def Let_def f unat_ucast_u16)
  have c2: "pData frame 2 = 0x02 \<longrightarrow> ?st' = st1\<lparr>snifferState := ADVERT\<rparr>"
    by (simp add: controlPDU_def Let_def)
  have co: "pData frame 2 \<noteq> 0x00 \<and> pData frame 2 \<noteq> 0x01 \<and> pData frame 2 \<noteq> 0x02 \<and>
      pData frame 2 \<noteq> 0x18 \<longrightarrow> ?st' = st1"
    by (simp add: controlPDU_def Let_def)
  from a r c0 c1 c18 c2 co show ?thesis by blast
qed

lemma connUpdateInd_fields:
  "channel connUpdateInd = 5" "length_f connUpdateInd = 14"
  "pData connUpdateInd 0 = 0x03" "pData connUpdateInd 1 = 12" "pData connUpdateInd (Suc 0) = 12"
  "pData connUpdateInd 2 = 0x00"
  "pData connUpdateInd 4 = 2" "pData connUpdateInd 5 = 0" "pData connUpdateInd 6 = 8"
  "pData connUpdateInd 7 = 0" "pData connUpdateInd 12 = 5" "pData connUpdateInd 13 = 0"
  by (simp_all add: connUpdateInd_def controlFrame_def dataFrame_def bufferOf_def)

lemma control_short_stages:
  "reactToPDU (staleUpdate lo hi) (pendingState 3 0xFFFFFFFF 4) =
     Inr ((pendingState 3 0xFFFFFFFF 4)
            \<lparr>next_rconf := \<lparr>chanMap = 0x1FFFFFFFFF, hopIntervalTicks = 40000,
                              offset = 2, phy = 0\<rparr>,
             nextInstant := ucast (load16 (bufferOf [lo, hi]) 0)\<rparr>)"
proof -
  let ?f = "staleUpdate lo hi"
  let ?s = "pendingState 3 0xFFFFFFFF 4"
  have b: "pData ?f 0 = 0x03" "pData ?f 1 = 0x01" "pData ?f (Suc 0) = 0x01" "pData ?f 2 = 0x00"
    "pData ?f 4 = 2" "pData ?f 5 = 0" "pData ?f 6 = 8" "pData ?f 7 = 0"
    "pData ?f 12 = lo" "pData ?f 13 = hi"
    by (simp_all add: staleUpdate_def bufferOf_def)
  have f: "channel ?f < 37" "3 \<le> length_f ?f" "pData ?f 0 AND 0x3 = 0x3"
    "unat (pData ?f 1) \<le> length_f ?f - 2"
    by (simp_all add: b) (simp_all add: staleUpdate_def)
  have a: "recordAnchor ?f ?s = Inr ?s"
    by (simp add: recordAnchor_def pendingState_def initState_def)
  have i: "load16 (pData ?f) 12 = load16 (bufferOf [lo, hi]) 0"
    by (simp add: load16_def b bufferOf_def)
  have o: "load16 (pData ?f) 4 = 2"
    by (simp add: load16_def b)
  have t: "load16 (pData ?f) 6 = 8"
    by (simp add: load16_def b)
  have "controlPDU 0 ?f ?s =
      ?s\<lparr>next_rconf := \<lparr>chanMap = 0x1FFFFFFFFF, hopIntervalTicks = 40000,
                            offset = 2, phy = 0\<rparr>,
          nextInstant := ucast (load16 (bufferOf [lo, hi]) 0)\<rparr>"
    unfolding controlPDU_def Let_def i o t
    by (simp add: pendingState_def initState_def)
  with control_branch_eq [OF f a] show ?thesis
    by (simp add: b)
qed

text \<open>
  Claim C5 does not hold of the code. The data-channel branch checks that the frame
  has 3 bytes and that the body length of byte 1 fits in it, and then reads the fields
  of the opcode at fixed offsets up to 13 without asking whether the frame is that
  long; the CONNECT\_IND branch, for its part, insists on a body of 34 bytes before
  it reads. So for a control PDU too short to hold its fields the staged offset,
  interval and instant are not from the PDU: two frames with the same length and the
  same three bytes stage the instants 5 and \<open>0x1234\<close>, after what the buffer
  happens to hold behind them.
\<close>

theorem reactToPDU_control_stale:
  "length_f (staleUpdate 0x05 0x00) = 3 \<and> length_f (staleUpdate 0x34 0x12) = 3 \<and>
   channel (staleUpdate 0x05 0x00) = channel (staleUpdate 0x34 0x12) \<and>
   pData (staleUpdate 0x05 0x00) 0 = pData (staleUpdate 0x34 0x12) 0 \<and>
   pData (staleUpdate 0x05 0x00) 1 = pData (staleUpdate 0x34 0x12) 1 \<and>
   pData (staleUpdate 0x05 0x00) 2 = pData (staleUpdate 0x34 0x12) 2 \<and>
   reactToPDU (staleUpdate 0x05 0x00) (pendingState 3 0xFFFFFFFF 4) =
     Inr ((pendingState 3 0xFFFFFFFF 4)
            \<lparr>next_rconf := \<lparr>chanMap = 0x1FFFFFFFFF, hopIntervalTicks = 40000,
                              offset = 2, phy = 0\<rparr>,
             nextInstant := 5\<rparr>) \<and>
   reactToPDU (staleUpdate 0x34 0x12) (pendingState 3 0xFFFFFFFF 4) =
     Inr ((pendingState 3 0xFFFFFFFF 4)
            \<lparr>next_rconf := \<lparr>chanMap = 0x1FFFFFFFFF, hopIntervalTicks = 40000,
                              offset = 2, phy = 0\<rparr>,
             nextInstant := 0x1234\<rparr>)"
proof -
  have "length_f (staleUpdate 0x05 0x00) = 3" "length_f (staleUpdate 0x34 0x12) = 3"
    "channel (staleUpdate 0x05 0x00) = channel (staleUpdate 0x34 0x12)"
    "pData (staleUpdate 0x05 0x00) 0 = pData (staleUpdate 0x34 0x12) 0"
    "pData (staleUpdate 0x05 0x00) 1 = pData (staleUpdate 0x34 0x12) 1"
    "pData (staleUpdate 0x05 0x00) 2 = pData (staleUpdate 0x34 0x12) 2"
    by (simp_all add: staleUpdate_def bufferOf_def)
  moreover have "(ucast (load16 (bufferOf [0x05, 0x00]) 0) :: u32) = 5"
    by (simp add: load16_def bufferOf_def)
  moreover have "(ucast (load16 (bufferOf [0x34, 0x12]) 0) :: u32) = 0x1234"
    by (simp add: load16_def bufferOf_def)
  ultimately show ?thesis
    using control_short_stages [of "0x05" "0x00"] control_short_stages [of "0x34" "0x12"]
    by simp
qed

section \<open>The pending update applier\<close>

lemma uint_sub_u32: "uint ((a :: u32) - b) = (uint a - uint b) mod 4294967296"
  using uint_word_ariths(2) [of a b] by simp

lemma mod_mod_65536: "(x :: int) mod 4294967296 mod 65536 = x mod 65536"
  by (rule mod_mod_cancel) simp

lemma uint_low16_sub: "uint (take_bit 16 ((a :: u32) - b)) = (uint a - uint b) mod 65536"
proof -
  have "uint (take_bit 16 (a - b)) = take_bit 16 (uint (a - b))"
    by (rule unsigned_take_bit_eq)
  also have "\<dots> = uint (a - b) mod 2 ^ 16"
    by (rule take_bit_eq_mod)
  also have "\<dots> = (uint a - uint b) mod 4294967296 mod 65536"
    by (simp only: uint_sub_u32) simp
  finally show ?thesis by (simp only: mod_mod_65536)
qed

lemma and_FFFF_zero_iff:
  "((a :: u32) - b) AND 0xFFFF = 0 \<longleftrightarrow> (int (unat a) - int (unat b)) mod 65536 = 0"
proof -
  have m: "(0xFFFF :: u32) = mask 16"
    by (simp add: mask_eq_exp_minus_1)
  have "((a - b) AND 0xFFFF = 0) = (take_bit 16 (a - b) = 0)"
    by (simp only: m take_bit_eq_mask)
  also have "\<dots> = (uint (take_bit 16 (a - b)) = 0)"
    by (simp only: unsigned_eq_0_iff)
  also have "\<dots> = ((uint a - uint b) mod 65536 = 0)"
    by (simp only: uint_low16_sub)
  finally show ?thesis
    by (simp only: uint_nat)
qed

lemma instantReached_iff: "instantReached st = updateDue st"
  by (simp add: instantReached_def updateDue_def and_FFFF_zero_iff)

lemma applyPending_due:
  assumes "length (mapping_table st) = 37" and "instantReached st"
    and "0 < usedCount (chanMap (next_rconf st))"
  shows "applyPending st =
     Inr (st\<lparr>rconf := next_rconf st,
             nextHopTime := nextHopTime st + of_nat (unat (offset (next_rconf st)) * 5000),
             mapping_table := csa1Table (chanMap (next_rconf st)),
             nextInstant := 0xFFFFFFFF\<rparr>)"
  using assms by (simp add: applyPending_def Let_def computeMap1_table)

lemma applyPending_not_due: "\<not> instantReached st \<Longrightarrow> applyPending st = Inr st"
  by (simp add: applyPending_def)

lemma applyPending_zero:
  assumes "instantReached st" and "usedCount (chanMap (next_rconf st)) = 0"
  shows "applyPending st = Inl DivByZero"
  using assms by (simp add: applyPending_def Let_def computeMap1_zero)

lemma wrap_mod: "k \<le> 10 \<Longrightarrow> (5 - int (65531 + k)) mod 65536 = 10 - int k"
proof -
  assume k: "k \<le> 10"
  have "5 - int (65531 + k) = (10 - int k) - 65536" by simp
  then have "(5 - int (65531 + k)) mod 65536 = ((10 - int k) - 65536) mod 65536"
    by (rule arg_cong)
  also have "\<dots> = (10 - int k) mod 65536" by (rule minus_mod_self2)
  also have "\<dots> = 10 - int k" using k by simp
  finally show ?thesis .
qed

lemma wrap_example:
  assumes "nextInstant st = 5" and "1 \<le> k" and "k \<le> 10"
  shows "updateDue (st\<lparr>connEventCount := of_nat (65531 + k)\<rparr>) = (k = 10)"
proof -
  have "unat (of_nat (65531 + k) :: u32) = 65531 + k"
    using assms by (intro unat_of_nat_small) simp
  then have "updateDue (st\<lparr>connEventCount := of_nat (65531 + k)\<rparr>) =
      ((5 - int (65531 + k)) mod 65536 = 0)"
    using assms(1) by (simp add: updateDue_def del: of_nat_add)
  also have "\<dots> = (k = 10)"
    using assms by (simp only: wrap_mod) auto
  finally show ?thesis .
qed

lemma len_pending: "length (mapping_table (pendingState m i c)) = 37"
  by (simp add: pendingState_def)

lemma updateDue_pending: "updateDue (pendingState m 5 65541)"
  by (simp add: updateDue_def pendingState_def)

lemma usedCount_3: "usedCount 3 = 2"
  by code_simp

text \<open>
  Claim C2, with the condition the code needs. The applier returns the state with the
  staged configuration made active, 5000 times its offset added to the next hop time,
  the mapping table recomputed from its map and the staged instant reset to the
  sentinel when an update is staged and the instant minus the event count is zero
  modulo 65536; otherwise it returns the state unchanged; so the state changes if and
  only if that condition holds. This needs the map of a due update to have at least
  one of the channels 0 to 36. The subtraction is taken on 32-bit words and masked to
  16 bits, which agrees with the integers modulo 65536 also when the counter has
  passed 65535: with instant 5 and the counter at 65531, of the next ten counter
  values only the tenth makes the update due.
\<close>

theorem applyPending_iff:
  assumes "length (mapping_table st) = 37"
    and "updateDue st \<longrightarrow> 0 < usedCount (chanMap (next_rconf st))"
  shows "\<exists>st'. applyPending st = Inr st' \<and>
     (updateDue st \<longrightarrow>
        st' = st\<lparr>rconf := next_rconf st,
                  nextHopTime := nextHopTime st + of_nat (unat (offset (next_rconf st)) * 5000),
                  mapping_table := csa1Table (chanMap (next_rconf st)),
                  nextInstant := 0xFFFFFFFF\<rparr>) \<and>
     (\<not> updateDue st \<longrightarrow> st' = st) \<and>
     (st' \<noteq> st \<longleftrightarrow> updateDue st) \<and>
     (nextInstant st = 5 \<longrightarrow>
        (\<forall>k. 1 \<le> k \<and> k \<le> 10 \<longrightarrow>
           (updateDue (st\<lparr>connEventCount := of_nat (65531 + k)\<rparr>) \<longleftrightarrow> k = 10)))"
proof -
  let ?ap = "st\<lparr>rconf := next_rconf st,
                  nextHopTime := nextHopTime st + of_nat (unat (offset (next_rconf st)) * 5000),
                  mapping_table := csa1Table (chanMap (next_rconf st)),
                  nextInstant := 0xFFFFFFFF\<rparr>"
  have ex: "nextInstant st = 5 \<longrightarrow>
        (\<forall>k. 1 \<le> k \<and> k \<le> 10 \<longrightarrow>
           (updateDue (st\<lparr>connEventCount := of_nat (65531 + k)\<rparr>) \<longleftrightarrow> k = 10))"
    using wrap_example by blast
  show ?thesis
  proof (cases "updateDue st")
    case True
    then have ni: "nextInstant st \<noteq> 0xFFFFFFFF" by (simp add: updateDue_def)
    have ne: "?ap \<noteq> st"
    proof
      assume "?ap = st"
      then have "nextInstant ?ap = nextInstant st" by (rule arg_cong)
      with ni show False by simp
    qed
    from True assms have "applyPending st = Inr ?ap"
      by (simp add: applyPending_due instantReached_iff)
    with True ne ex show ?thesis by (intro exI [of _ ?ap]) simp
  next
    case False
    then have "applyPending st = Inr st"
      by (simp add: applyPending_not_due instantReached_iff)
    with False ex show ?thesis by (intro exI [of _ st]) simp
  qed
qed

text \<open>
  A due update with the channels 0 and 1, then the run of the example: from instant 5
  and counter 65531 nine connection events leave the update staged and the tenth
  applies it.
\<close>

theorem applyPending_iff_witness:
  "length (mapping_table (pendingState 3 5 65541)) = 37 \<and>
   updateDue (pendingState 3 5 65541) \<and>
   0 < usedCount (chanMap (next_rconf (pendingState 3 5 65541))) \<and>
   (\<exists>st'. applyPending (pendingState 3 5 65541) = Inr st' \<and>
      rconf st' = next_rconf (pendingState 3 5 65541) \<and> nextHopTime st' = 10000 \<and>
      mapping_table st' = csa1Table 3 \<and> nextInstant st' = 0xFFFFFFFF) \<and>
   (case connEvents 9 (pendingState 3 5 65531) of
      Inl e \<Rightarrow> False
    | Inr s9 \<Rightarrow>
        nextInstant s9 = 5 \<and> connEventCount s9 = 65540 \<and>
        rconf s9 = rconf (pendingState 3 5 65531) \<and>
        (case connEvent s9 of
           Inl e \<Rightarrow> False
         | Inr s10 \<Rightarrow>
             nextInstant s10 = 0xFFFFFFFF \<and> rconf s10 = next_rconf (pendingState 3 5 65531)))"
proof -
  let ?s = "pendingState 3 5 65541"
  have d: "updateDue ?s" by (rule updateDue_pending)
  have u: "0 < usedCount (chanMap (next_rconf ?s))"
    by (simp add: pendingState_def usedCount_3)
  then have u': "updateDue ?s \<longrightarrow> 0 < usedCount (chanMap (next_rconf ?s))" by simp
  from applyPending_iff [OF len_pending u'] d obtain st' where
    a: "applyPending ?s = Inr st'"
    and e: "st' = ?s\<lparr>rconf := next_rconf ?s,
                  nextHopTime := nextHopTime ?s + of_nat (unat (offset (next_rconf ?s)) * 5000),
                  mapping_table := csa1Table (chanMap (next_rconf ?s)),
                  nextInstant := 0xFFFFFFFF\<rparr>"
    by blast
  have "rconf st' = next_rconf ?s \<and> nextHopTime st' = 10000 \<and>
      mapping_table st' = csa1Table 3 \<and> nextInstant st' = 0xFFFFFFFF"
    by (simp add: e pendingState_def initState_def)
  with a have x: "\<exists>st'. applyPending ?s = Inr st' \<and>
      rconf st' = next_rconf ?s \<and> nextHopTime st' = 10000 \<and>
      mapping_table st' = csa1Table 3 \<and> nextInstant st' = 0xFFFFFFFF"
    by blast
  have run: "(case connEvents 9 (pendingState 3 5 65531) of
      Inl e \<Rightarrow> False
    | Inr s9 \<Rightarrow>
        nextInstant s9 = 5 \<and> connEventCount s9 = 65540 \<and>
        rconf s9 = rconf (pendingState 3 5 65531) \<and>
        (case connEvent s9 of
           Inl e \<Rightarrow> False
         | Inr s10 \<Rightarrow>
             nextInstant s10 = 0xFFFFFFFF \<and> rconf s10 = next_rconf (pendingState 3 5 65531)))"
    by code_simp
  from len_pending d u x run show ?thesis by (intro conjI)
qed

text \<open>
  A due update whose map has no channel: the condition of the claim holds, and the
  applier stops in \<^verbatim>\<open>computeMap1\<close> on the division by zero, with the staged instant
  never reset.
\<close>

theorem applyPending_iff_counterexample:
  "nextInstant (pendingState 0 5 65541) \<noteq> 0xFFFFFFFF \<and>
   (int (unat (nextInstant (pendingState 0 5 65541)))
      - int (unat (connEventCount (pendingState 0 5 65541)))) mod 65536 = 0 \<and>
   applyPending (pendingState 0 5 65541) = Inl DivByZero"
proof -
  have d: "updateDue (pendingState 0 5 65541)" by (rule updateDue_pending)
  then have "instantReached (pendingState 0 5 65541)" by (simp only: instantReached_iff)
  moreover have "usedCount (chanMap (next_rconf (pendingState 0 5 65541))) = 0"
    by (simp add: pendingState_def usedCount_0)
  ultimately have "applyPending (pendingState 0 5 65541) = Inl DivByZero"
    by (rule applyPending_zero)
  with d show ?thesis by (simp add: updateDue_def)
qed

text \<open>
  Claim C7 does not hold of the code. No call site of \<^verbatim>\<open>computeMap1\<close> checks the
  number of used channels: an LL\_CHANNEL\_MAP\_IND with an empty map is staged like
  any other, and the connection event that reaches its instant divides by zero.
\<close>

theorem applyPending_no_guard:
  "(case reactToPDU chanMapIndNoChannels (pendingState 3 0xFFFFFFFF 4) of
      Inl e \<Rightarrow> Inl e
    | Inr st \<Rightarrow> connEvent st) = Inl DivByZero"
  by code_simp

section \<open>The clock sync filter\<close>

lemma compare_i32_inRange:
  assumes "sint a - sint b < 2 ^ 31" and "sint b - sint a < 2 ^ 31"
  shows "compare_i32 a b = Inr (sint a - sint b)"
  using assms by (simp add: compare_i32_def Let_def)

lemma insertBy_insort:
  assumes "\<forall>y \<in> set ys. sint x - sint y < 2 ^ 31 \<and> sint y - sint x < 2 ^ 31"
  shows "insertBy x ys = Inr (insort_key sint x ys)"
  using assms
proof (induction ys)
  case Nil
  show ?case by simp
next
  case (Cons y ys)
  then have c: "compare_i32 x y = Inr (sint x - sint y)"
    by (simp add: compare_i32_inRange)
  from Cons have "insertBy x ys = Inr (insort_key sint x ys)" by simp
  with c show ?case by simp
qed

lemma inRange_Cons: "inRange (x # xs) \<Longrightarrow> inRange xs"
  by (simp add: inRange_def)

lemma qsort_sort:
  assumes "inRange xs"
  shows "qsort xs = Inr (sort_key sint xs)"
  using assms
proof (induction xs)
  case Nil
  show ?case by simp
next
  case (Cons x xs)
  then have ih: "qsort xs = Inr (sort_key sint xs)"
    by (simp add: inRange_Cons)
  have "\<forall>y \<in> set (sort_key sint xs). sint x - sint y < 2 ^ 31 \<and> sint y - sint x < 2 ^ 31"
    using Cons.prems by (simp add: inRange_def)
  then have "insertBy x (sort_key sint xs) = Inr (insort_key sint x (sort_key sint xs))"
    by (rule insertBy_insort)
  with ih show ?case by simp
qed

lemma median_sorted:
  assumes "length arr = 16" and "inRange arr"
  shows "median arr 16 = Inr (sort_key sint arr, sort_key sint arr ! 8)"
  using assms by (simp add: median_def qsort_sort Let_def)

lemma clockSync_sorted:
  assumes "length (anchorOffset st) = 16" and "inRange (anchorOffset st)"
    and "connEventCount st AND 0xF = 0xF"
  shows "clockSync st =
     Inr (st\<lparr>anchorOffset := sort_key sint (anchorOffset st),
             nextHopTime := nextHopTime st + (sort_key sint (anchorOffset st) ! 8 - 4000)\<rparr>)"
  using assms by (simp add: clockSync_def median_sorted AO_TARG_def)

lemma sort_key_fixed_iff: "sort_key f xs = xs \<longleftrightarrow> sorted (map f xs)"
proof
  assume "sort_key f xs = xs"
  then have "map f xs = map f (sort_key f xs)" by simp
  then show "sorted (map f xs)" by (simp only: sorted_sort_key)
next
  assume "sorted (map f xs)"
  then show "sort_key f xs = xs" by (rule sort_key_id_if_sorted)
qed

lemma syncState_fields:
  "anchorOffset (syncState xs) = xs" "connEventCount (syncState xs) = 15"
  "nextHopTime (syncState xs) = 0"
  by (simp_all add: syncState_def pendingState_def initState_def)

lemma sort_desc: "sort_key sint descHistory = rev descHistory"
  by code_simp

lemma inRange_descHistory: "inRange descHistory"
  by code_simp

text \<open>
  Claim C8, within the range of the comparison. For a history of 16 samples that lie
  less than \<open>2 ^ 31\<close> apart as signed values, \<^verbatim>\<open>median\<close> returns the element at index
  8 of the samples sorted ascending by signed value, and the filter adds that element
  minus 4000 to the next hop time.
\<close>

theorem clockSync_median:
  assumes "length (anchorOffset st) = 16" and "inRange (anchorOffset st)"
    and "connEventCount st AND 0xF = 0xF"
  shows "\<exists>arr' st'. median (anchorOffset st) 16 = Inr (arr', sort_key sint (anchorOffset st) ! 8) \<and>
           clockSync st = Inr st' \<and>
           nextHopTime st' = nextHopTime st + (sort_key sint (anchorOffset st) ! 8 - 4000)"
proof -
  have "median (anchorOffset st) 16 =
      Inr (sort_key sint (anchorOffset st), sort_key sint (anchorOffset st) ! 8)"
    using assms(1,2) by (rule median_sorted)
  moreover have "clockSync st =
     Inr (st\<lparr>anchorOffset := sort_key sint (anchorOffset st),
             nextHopTime := nextHopTime st + (sort_key sint (anchorOffset st) ! 8 - 4000)\<rparr>)"
    using assms by (rule clockSync_sorted)
  ultimately show ?thesis by simp
qed

text \<open>Sixteen offsets in descending order from 4016 to 4001: the element is 4009.\<close>

theorem clockSync_median_witness:
  "length (anchorOffset (syncState descHistory)) = 16 \<and>
   inRange (anchorOffset (syncState descHistory)) \<and>
   connEventCount (syncState descHistory) AND 0xF = 0xF \<and>
   (\<exists>arr' st'. median descHistory 16 = Inr (arr', 4009) \<and>
      clockSync (syncState descHistory) = Inr st' \<and> nextHopTime st' = 9)"
proof -
  have l: "length (anchorOffset (syncState descHistory)) = 16"
    by (simp add: syncState_fields descHistory_def)
  have r: "inRange (anchorOffset (syncState descHistory))"
    by (simp add: syncState_fields inRange_descHistory)
  have c: "connEventCount (syncState descHistory) AND 0xF = 0xF"
    by (simp add: syncState_fields)
  have e: "sort_key sint descHistory ! 8 = 4009"
    by (simp add: sort_desc descHistory_def)
  from clockSync_median [OF l r c] have
    "\<exists>arr' st'. median descHistory 16 = Inr (arr', 4009) \<and>
      clockSync (syncState descHistory) = Inr st' \<and> nextHopTime st' = 9"
    by (simp add: syncState_fields e)
  with l r c show ?thesis by (intro conjI)
qed

text \<open>
  Eight samples \<open>0x7FFFFFFC\<close> and eight \<open>0x80000000\<close>: sorted ascending by signed
  value the element at index 8 is \<open>0x7FFFFFFC\<close>, but \<^verbatim>\<open>_compare\<close> has to subtract
  the smallest 32-bit integer from a large positive one, and the filter returns
  nothing.
\<close>

theorem clockSync_median_counterexample:
  "length overflowHistory = 16 \<and>
   sort_key sint overflowHistory ! 8 = 0x7FFFFFFC \<and>
   median overflowHistory 16 = Inl SignedOverflow \<and>
   clockSync (syncState overflowHistory) = Inl SignedOverflow"
proof -
  have "sort_key sint overflowHistory ! 8 = 0x7FFFFFFC" by code_simp
  moreover have m: "median overflowHistory 16 = Inl SignedOverflow" by code_simp
  moreover have "clockSync (syncState overflowHistory) = Inl SignedOverflow"
    by (simp add: clockSync_def syncState_fields m)
  ultimately show ?thesis by (simp add: overflowHistory_def)
qed

text \<open>
  Claim C9, as the code has it. \<^verbatim>\<open>median\<close> is handed the history itself and sorts
  it in place. For a history of 16 samples within the range of the comparison, the
  buffer afterwards holds the same samples, as a multiset, in ascending signed order;
  it is what it was before exactly when it was already in that order.
\<close>

theorem clockSync_in_place:
  assumes "length (anchorOffset st) = 16" and "inRange (anchorOffset st)"
    and "connEventCount st AND 0xF = 0xF"
  shows "\<exists>st'. clockSync st = Inr st' \<and>
           anchorOffset st' = sort_key sint (anchorOffset st) \<and>
           mset (anchorOffset st') = mset (anchorOffset st) \<and>
           sorted (map sint (anchorOffset st')) \<and>
           (anchorOffset st' = anchorOffset st \<longleftrightarrow> sorted (map sint (anchorOffset st))) \<and>
           nextHopTime st' = nextHopTime st + (anchorOffset st' ! 8 - 4000)"
proof -
  let ?st' = "st\<lparr>anchorOffset := sort_key sint (anchorOffset st),
             nextHopTime := nextHopTime st + (sort_key sint (anchorOffset st) ! 8 - 4000)\<rparr>"
  have "clockSync st = Inr ?st'"
    using assms by (rule clockSync_sorted)
  moreover have "anchorOffset ?st' = sort_key sint (anchorOffset st)" by simp
  moreover have "mset (anchorOffset ?st') = mset (anchorOffset st)" by simp
  moreover have "sorted (map sint (anchorOffset ?st'))" by simp
  moreover have "anchorOffset ?st' = anchorOffset st \<longleftrightarrow> sorted (map sint (anchorOffset st))"
    by (simp add: sort_key_fixed_iff)
  moreover have "nextHopTime ?st' = nextHopTime st + (anchorOffset ?st' ! 8 - 4000)" by simp
  ultimately show ?thesis by (intro exI [of _ ?st']) simp
qed

text \<open>The descending history comes back reversed.\<close>

theorem clockSync_in_place_witness:
  "length (anchorOffset (syncState descHistory)) = 16 \<and>
   inRange (anchorOffset (syncState descHistory)) \<and>
   connEventCount (syncState descHistory) AND 0xF = 0xF \<and>
   (\<exists>st'. clockSync (syncState descHistory) = Inr st' \<and>
      anchorOffset st' = rev descHistory \<and> nextHopTime st' = 9)"
proof -
  have l: "length (anchorOffset (syncState descHistory)) = 16"
    by (simp add: syncState_fields descHistory_def)
  have "inRange descHistory" by code_simp
  then have r: "inRange (anchorOffset (syncState descHistory))"
    by (simp add: syncState_fields)
  have c: "connEventCount (syncState descHistory) AND 0xF = 0xF"
    by (simp add: syncState_fields)
  from clockSync_in_place [OF l r c] obtain st' where
    a: "clockSync (syncState descHistory) = Inr st'"
    and b: "anchorOffset st' = sort_key sint (anchorOffset (syncState descHistory))"
    and n: "nextHopTime st' = nextHopTime (syncState descHistory) + (anchorOffset st' ! 8 - 4000)"
    by blast
  from b have b': "anchorOffset st' = rev descHistory"
    by (simp add: syncState_fields sort_desc)
  have "rev descHistory ! 8 = 4009" by (simp add: descHistory_def)
  with n b' have "nextHopTime st' = 9" by (simp add: syncState_fields)
  with a b' l r c show ?thesis by blast
qed

text \<open>So the buffer after the filter is not the buffer before it.\<close>

theorem clockSync_copy_counterexample:
  "connEventCount (syncState descHistory) AND 0xF = 0xF \<and>
   anchorOffset (syncState descHistory) = descHistory \<and>
   clockSync (syncState descHistory) =
     Inr ((syncState descHistory)\<lparr>anchorOffset := rev descHistory, nextHopTime := 9\<rparr>) \<and>
   rev descHistory \<noteq> descHistory"
proof -
  have "clockSync (syncState descHistory) =
     Inr ((syncState descHistory)\<lparr>anchorOffset := rev descHistory, nextHopTime := 9\<rparr>)"
    by code_simp
  moreover have "rev descHistory \<noteq> descHistory"
    by (simp add: descHistory_def)
  ultimately show ?thesis by (simp add: syncState_fields)
qed

section \<open>The staged instant and the sentinel\<close>

lemma connectInd_sentinel:
  "connectInd frame st = Inr st' \<Longrightarrow> nextInstant st' = 0xFFFFFFFF"
  by (auto simp add: connectInd_def Let_def split: sum.splits)

lemma reactToPDU_accepts:
  assumes "acceptsConnect frame"
  shows "reactToPDU frame st = connectInd frame st"
proof -
  from assms have f: "37 \<le> channel frame" "2 \<le> length_f frame"
    "unat (pData frame 1) \<le> length_f frame - 2" "pData frame 0 AND 0xF = 0x5"
    "pData frame 1 = 34" "pData frame 0 AND 0x20 = 0"
    unfolding acceptsConnect_def by blast+
  from f(6) have "\<not> bit (pData frame 0) 5"
    using chsel_bit [of "pData frame 0"] by simp
  with f(1-5) show ?thesis by (rule connect_branch_eq)
qed

lemma reactToPDU_adv_other:
  "37 \<le> channel frame \<Longrightarrow> \<not> acceptsConnect frame \<Longrightarrow> reactToPDU frame st = Inr st"
  by (auto simp add: acceptsConnect_def reactToPDU_def Let_def)

lemma controlPDU_staged:
  assumes "opc = 0x00 \<or> opc = 0x01 \<or> opc = 0x18"
  shows "unat (nextInstant (controlPDU opc frame st)) < 65536 \<and>
         nextInstant (controlPDU opc frame st) \<noteq> 0xFFFFFFFF"
proof -
  obtain x :: u16 where "nextInstant (controlPDU opc frame st) = ucast x"
    using assms by (auto simp add: controlPDU_def Let_def)
  then show ?thesis
    using unat_u16_lt [of x] by (simp add: unat_ucast_u16 ucast_u16_not_sentinel)
qed

lemma controlPDU_other:
  assumes "opc \<noteq> 0x00" and "opc \<noteq> 0x01" and "opc \<noteq> 0x18"
  shows "nextInstant (controlPDU opc frame st) = nextInstant st"
  using assms by (simp add: controlPDU_def Let_def)

lemma reactToPDU_data_cases:
  assumes "channel frame < 37" and "reactToPDU frame st = Inr st'"
  shows "(stagesUpdate frame \<and> unat (nextInstant st') < 65536 \<and> nextInstant st' \<noteq> 0xFFFFFFFF) \<or>
         (\<not> stagesUpdate frame \<and> nextInstant st' = nextInstant st)"
proof -
  from assms obtain st1 where a: "recordAnchor frame st = Inr st1"
    by (auto simp add: reactToPDU_def split: sum.splits)
  then have n1: "nextInstant st1 = nextInstant st"
    by (simp add: recordAnchor_frame)
  show ?thesis
  proof (cases "3 \<le> length_f frame \<and> pData frame 0 AND 0x3 = 0x3 \<and>
                unat (pData frame 1) \<le> length_f frame - 2")
    case True
    with assms a have e: "st' = controlPDU (pData frame 2) frame st1"
      by (simp add: control_branch_eq)
    show ?thesis
    proof (cases "pData frame 2 = 0x00 \<or> pData frame 2 = 0x01 \<or> pData frame 2 = 0x18")
      case st: True
      with True assms(1) have "stagesUpdate frame" by (simp add: stagesUpdate_def)
      with controlPDU_staged [OF st] e show ?thesis by simp
    next
      case False
      with assms(1) have "\<not> stagesUpdate frame" by (simp add: stagesUpdate_def)
      moreover from False e n1 have "nextInstant st' = nextInstant st"
        by (simp add: controlPDU_other)
      ultimately show ?thesis by simp
    qed
  next
    case False
    with assms a have "st' = st1"
      by (auto simp add: reactToPDU_def Let_def split: if_splits)
    moreover from False have "\<not> stagesUpdate frame" by (auto simp add: stagesUpdate_def)
    ultimately show ?thesis using n1 by simp
  qed
qed

lemma applyPending_instant:
  assumes "applyPending st = Inr st'"
  shows "nextInstant st' = (if instantReached st then 0xFFFFFFFF else nextInstant st)"
  using assms by (auto simp add: applyPending_def Let_def split: if_splits sum.splits)

lemma clockSync_instant: "clockSync st = Inr st' \<Longrightarrow> nextInstant st' = nextInstant st"
  by (auto simp add: clockSync_def split: if_splits sum.splits prod.splits)

lemma connEvent_instant:
  assumes "connEvent st = Inr st'"
  shows "nextInstant st' =
     (if instantReached (hopAdvance st) then 0xFFFFFFFF else nextInstant st)"
proof -
  from assms obtain st1 where a: "applyPending (hopAdvance st) = Inr st1"
    and c: "clockSync (st1\<lparr>nextHopTime := nextHopTime st1 + hopIntervalTicks (rconf st1)\<rparr>) = Inr st'"
    by (auto simp add: connEvent_def split: sum.splits)
  from clockSync_instant [OF c] applyPending_instant [OF a] show ?thesis
    by (simp add: hopAdvance_def)
qed

lemma not_both: "acceptsConnect frame \<Longrightarrow> \<not> stagesUpdate frame"
  by (simp add: acceptsConnect_def stagesUpdate_def)

lemma trackedStep_inv:
  assumes "trackedStep opn s = Inr s'" and "stagedInv s"
  shows "stagedInv s'"
proof (cases s)
  case (Pair st g)
  show ?thesis
  proof (cases opn)
    case (Receive frame)
    with Pair assms(1) obtain st' where r: "reactToPDU frame st = Inr st'"
      and s': "s' = (st', if acceptsConnect frame then False
                          else if stagesUpdate frame then True else g)"
      by (auto split: sum.splits)
    show ?thesis
    proof (cases "37 \<le> channel frame")
      case True
      then have ns: "\<not> stagesUpdate frame" by (simp add: stagesUpdate_def)
      show ?thesis
      proof (cases "acceptsConnect frame")
        case ac: True
        with r have "nextInstant st' = 0xFFFFFFFF"
          by (simp add: reactToPDU_accepts connectInd_sentinel)
        with ac s' show ?thesis by (simp add: stagedInv_def)
      next
        case False
        with True r have "st' = st" by (simp add: reactToPDU_adv_other)
        with False ns s' assms(2) Pair show ?thesis by (simp add: stagedInv_def)
      qed
    next
      case False
      then have c: "channel frame < 37" by simp
      then have na: "\<not> acceptsConnect frame" by (simp add: acceptsConnect_def)
      from reactToPDU_data_cases [OF c r] na s' assms(2) Pair show ?thesis
        by (auto simp add: stagedInv_def)
    qed
  next
    case ConnEvent
    with Pair assms(1) obtain st' where r: "connEvent st = Inr st'"
      and s': "s' = (st', if instantReached (hopAdvance st) then False else g)"
      by (auto split: sum.splits)
    from connEvent_instant [OF r] s' assms(2) Pair show ?thesis
      by (simp add: stagedInv_def)
  qed
qed

lemma trackedStep_connect:
  assumes "acceptsConnect frame" and "trackedStep (Receive frame) s = Inr s'"
  shows "stagedInv s'"
proof (cases s)
  case (Pair st g)
  with assms obtain st' where r: "reactToPDU frame st = Inr st'" and s': "s' = (st', False)"
    by (auto split: sum.splits)
  from r assms(1) have "nextInstant st' = 0xFFFFFFFF"
    by (simp add: reactToPDU_accepts connectInd_sentinel)
  with s' show ?thesis by (simp add: stagedInv_def)
qed

lemma trackedRun_inv:
  "trackedRun ops s = Inr s' \<Longrightarrow> stagedInv s \<Longrightarrow> stagedInv s'"
proof (induction ops arbitrary: s)
  case Nil
  then show ?case by simp
next
  case (Cons opn ops)
  from Cons.prems(1) obtain s1 where a: "trackedStep opn s = Inr s1"
    and b: "trackedRun ops s1 = Inr s'"
    by (auto split: sum.splits)
  from b trackedStep_inv [OF a Cons.prems(2)] show ?case
    by (rule Cons.IH)
qed

text \<open>
  Claim C10. An instant staged by a control PDU is read from a 16-bit field: it is
  below 65536 and so is never the sentinel \<open>0xFFFFFFFF\<close>. And from an accepted
  CONNECT\_IND on, after every frame and every connection event of a run that
  returns, the staged instant differs from the sentinel exactly when an update is
  staged and not yet applied.
\<close>

theorem staged_instant_invariant:
  "(stagesUpdate frame \<and> reactToPDU frame st = Inr st' \<longrightarrow>
      unat (nextInstant st') < 65536 \<and> nextInstant st' \<noteq> 0xFFFFFFFF) \<and>
   (acceptsConnect cframe \<and> trackedRun (Receive cframe # ops) (st0, g) = Inr (st'', g'') \<longrightarrow>
      (g'' \<longleftrightarrow> nextInstant st'' \<noteq> 0xFFFFFFFF))"
proof (rule conjI; rule impI)
  assume a: "stagesUpdate frame \<and> reactToPDU frame st = Inr st'"
  then have "channel frame < 37" by (simp add: stagesUpdate_def)
  from reactToPDU_data_cases [OF this] a
  show "unat (nextInstant st') < 65536 \<and> nextInstant st' \<noteq> 0xFFFFFFFF" by auto
next
  assume a: "acceptsConnect cframe \<and> trackedRun (Receive cframe # ops) (st0, g) = Inr (st'', g'')"
  then obtain s1 where s: "trackedStep (Receive cframe) (st0, g) = Inr s1"
    and r: "trackedRun ops s1 = Inr (st'', g'')"
    by (auto split: sum.splits)
  from a have "acceptsConnect cframe" ..
  then have "stagedInv s1" using s by (rule trackedStep_connect)
  with r have "stagedInv (st'', g'')" by (rule trackedRun_inv)
  then show "g'' \<longleftrightarrow> nextInstant st'' \<noteq> 0xFFFFFFFF" by (simp add: stagedInv_def)
qed

text \<open>
  The run of the example: the CONNECT\_IND, then the connection update with instant 5,
  then one connection event, after which the update is still staged.
\<close>

lemma connectReq_accepted:
  "reactToPDU connectReq initState = connectInd connectReq initState"
proof -
  have "37 \<le> channel connectReq" "2 \<le> length_f connectReq"
    "unat (pData connectReq 1) \<le> length_f connectReq - 2"
    "pData connectReq 0 AND 0xF = 0x5" "pData connectReq 1 = 34"
    "\<not> bit (pData connectReq 0) 5"
    by (simp_all add: connectReq_def connectFrame_fields)
  then show ?thesis by (rule connect_branch_eq)
qed

lemma connectReq_map: "load40 (pData connectReq) 30 = 0x1FFFFFFFFF"
  by (simp add: load40_def connectReq_def connectFrame_def connectBytes_def bufferOf_def)

lemma usedCount_all: "usedCount 0x1FFFFFFFFF = 37"
  by code_simp

lemma connectReq_result:
  "\<exists>s1. reactToPDU connectReq initState = Inr s1 \<and> nextInstant s1 = 0xFFFFFFFF \<and>
        connEventCount s1 = 0 \<and> \<not> firstPacket s1 \<and> wellFormed s1 \<and>
        chanMap (rconf s1) = 0x1FFFFFFFFF"
proof -
  have l: "length (mapping_table initState) = 37" by (simp add: initState_def)
  have u: "0 < usedCount (load40 (pData connectReq) 30)"
    by (simp add: connectReq_map usedCount_all)
  show ?thesis
    unfolding connectReq_accepted connectInd_table [OF l u]
    by (simp add: initState_def wellFormed_def length_csa1Table connectReq_map)
qed

lemma connUpdateInd_staged:
  assumes "\<not> firstPacket s1"
  shows "reactToPDU connUpdateInd s1 =
     Inr (s1\<lparr>next_rconf := \<lparr>chanMap = chanMap (rconf s1), hopIntervalTicks = 40000,
                             offset = 2, phy = phy (rconf s1)\<rparr>,
               nextInstant := 5\<rparr>)"
proof -
  have a: "recordAnchor connUpdateInd s1 = Inr s1"
    using assms by (simp add: recordAnchor_def)
  have f: "channel connUpdateInd < 37" "3 \<le> length_f connUpdateInd"
    "pData connUpdateInd 0 AND 0x3 = 0x3"
    "unat (pData connUpdateInd 1) \<le> length_f connUpdateInd - 2"
    by (simp_all add: connUpdateInd_fields)
  have "controlPDU 0 connUpdateInd s1 =
     s1\<lparr>next_rconf := \<lparr>chanMap = chanMap (rconf s1), hopIntervalTicks = 40000,
                             offset = 2, phy = phy (rconf s1)\<rparr>,
               nextInstant := 5\<rparr>"
    by (simp add: controlPDU_def Let_def load16_def connUpdateInd_fields)
  with control_branch_eq [OF f a] show ?thesis
    by (simp add: connUpdateInd_fields)
qed

lemma connEvent_idle:
  assumes "nextInstant s = 5" and "connEventCount s = 0"
  shows "\<exists>s'. connEvent s = Inr s' \<and> nextInstant s' = 5 \<and> connEventCount s' = 1"
proof -
  have "\<not> instantReached (hopAdvance s)"
    using assms by (simp add: instantReached_def hopAdvance_def)
  then have "applyPending (hopAdvance s) = Inr (hopAdvance s)"
    by (rule applyPending_not_due)
  then show ?thesis
    using assms by (simp add: connEvent_def clockSync_def hopAdvance_def)
qed

theorem staged_instant_invariant_witness:
  "stagesUpdate connUpdateInd \<and> acceptsConnect connectReq \<and>
   (\<exists>st st'. reactToPDU connectReq initState = Inr st \<and>
      reactToPDU connUpdateInd st = Inr st' \<and>
      unat (nextInstant st') < 65536 \<and> nextInstant st' \<noteq> 0xFFFFFFFF) \<and>
   (\<exists>st'' g''. trackedRun [Receive connectReq, Receive connUpdateInd, ConnEvent]
                  (initState, False) = Inr (st'', g'') \<and>
      g'' \<and> nextInstant st'' = 5 \<and> (g'' \<longleftrightarrow> nextInstant st'' \<noteq> 0xFFFFFFFF))"
proof -
  have s: "stagesUpdate connUpdateInd"
    by (simp add: stagesUpdate_def connUpdateInd_fields)
  have c: "acceptsConnect connectReq"
    by (simp add: acceptsConnect_def connectReq_def connectFrame_fields)
  from connectReq_result obtain s1 where
    e1: "reactToPDU connectReq initState = Inr s1" and n1: "connEventCount s1 = 0"
    and fp: "\<not> firstPacket s1"
    by blast
  define s2 where "s2 = s1\<lparr>next_rconf := \<lparr>chanMap = chanMap (rconf s1),
      hopIntervalTicks = 40000, offset = 2, phy = phy (rconf s1)\<rparr>, nextInstant := 5\<rparr>"
  have e2: "reactToPDU connUpdateInd s1 = Inr s2"
    unfolding s2_def using fp by (rule connUpdateInd_staged)
  have "nextInstant s2 = 5" "connEventCount s2 = 0"
    by (simp_all add: s2_def n1)
  from connEvent_idle [OF this] obtain s3 where
    e3: "connEvent s2 = Inr s3" and n3: "nextInstant s3 = 5"
    by blast
  have na: "\<not> acceptsConnect connUpdateInd"
    using s not_both by blast
  have nr: "\<not> instantReached (hopAdvance s2)"
    by (simp add: instantReached_def hopAdvance_def s2_def n1)
  have t: "trackedRun [Receive connectReq, Receive connUpdateInd, ConnEvent] (initState, False)
          = Inr (s3, True)"
    using e1 e2 e3 s c nr na by simp
  note inst = staged_instant_invariant [of connUpdateInd s1 s2 connectReq
      "[Receive connUpdateInd, ConnEvent]" initState False s3 True]
  from inst s e2 have p1: "unat (nextInstant s2) < 65536 \<and> nextInstant s2 \<noteq> 0xFFFFFFFF"
    by blast
  from inst c t have p2: "True \<longleftrightarrow> nextInstant s3 \<noteq> 0xFFFFFFFF"
    by blast
  from s c e1 e2 p1 t n3 p2 show ?thesis by blast
qed

section \<open>The arrays keep their sizes\<close>

text \<open>
  The conditions of \<open>wellFormed\<close> hold of the initial state and are kept by every
  frame and every connection event, so the theorems above that assume them speak of
  every state the task reaches.
\<close>

lemma unat_aoInd_lt: "unat (((x :: u32) + 1) AND 0xF) < 16"
  by (simp add: unat_aoInd_step)

lemma recordAnchor_keeps_wellFormed:
  assumes "wellFormed st" and "recordAnchor frame st = Inr st1"
  shows "wellFormed st1"
  using assms by (auto simp add: recordAnchor_def wellFormed_def unat_aoInd_lt split: if_splits)

lemma controlPDU_keeps_wellFormed: "wellFormed st \<Longrightarrow> wellFormed (controlPDU opc frame st)"
  by (simp add: controlPDU_def wellFormed_def Let_def)

lemma computeMap1_length:
  assumes "computeMap1 m mt = Inr t" and "length mt = 37"
  shows "length t = 37"
proof (cases "usedCount m = 0")
  case True
  with assms show ?thesis by (simp add: computeMap1_zero)
next
  case False
  with assms have "t = csa1Table m" by (simp add: computeMap1_table)
  then show ?thesis by (simp add: length_csa1Table)
qed

lemma connectInd_keeps_wellFormed:
  assumes "wellFormed st" and "connectInd frame st = Inr st'"
  shows "wellFormed st'"
proof -
  from assms(2) obtain t where
    c: "computeMap1 (load40 (pData frame) 30) (mapping_table st) = Inr t"
    and m: "mapping_table st' = t" and a: "anchorOffset st' = anchorOffset st"
    and i: "aoInd st' = aoInd st"
    by (auto simp add: connectInd_def Let_def split: sum.splits)
  from c assms(1) have "length t = 37"
    by (simp add: computeMap1_length wellFormed_def)
  with m a i assms(1) show ?thesis by (simp add: wellFormed_def)
qed

lemma reactToPDU_keeps_wellFormed:
  assumes "wellFormed st" and "reactToPDU frame st = Inr st'"
  shows "wellFormed st'"
proof (cases "37 \<le> channel frame")
  case True
  then have "reactToPDU frame st = connectInd frame st \<or> reactToPDU frame st = Inr st"
    by (simp add: reactToPDU_def Let_def)
  with assms show ?thesis by (auto simp add: connectInd_keeps_wellFormed)
next
  case False
  with assms(2) obtain st1 where a: "recordAnchor frame st = Inr st1"
    and e: "st' = st1 \<or> st' = controlPDU (pData frame 2) frame st1"
    by (auto simp add: reactToPDU_def Let_def split: sum.splits if_splits)
  from assms(1) a have "wellFormed st1" by (rule recordAnchor_keeps_wellFormed)
  with e show ?thesis by (auto simp add: controlPDU_keeps_wellFormed)
qed

lemma insertBy_length: "insertBy x ys = Inr zs \<Longrightarrow> length zs = Suc (length ys)"
proof (induction ys arbitrary: zs)
  case Nil
  then show ?case by auto
next
  case (Cons y ys)
  then show ?case by (auto split: sum.splits if_splits)
qed

lemma qsort_length: "qsort xs = Inr ys \<Longrightarrow> length ys = length xs"
proof (induction xs arbitrary: ys)
  case Nil
  then show ?case by simp
next
  case (Cons x xs)
  then show ?case by (auto split: sum.splits dest: insertBy_length)
qed

lemma median_length:
  assumes "median arr sz = Inr (arr', v)"
  shows "length arr' = length arr"
proof -
  from assms obtain s where q: "qsort (take sz arr) = Inr s" and a: "arr' = s @ drop sz arr"
    and l: "sz \<le> length arr"
    by (auto simp add: median_def Let_def split: if_splits sum.splits)
  from qsort_length [OF q] l a show ?thesis by simp
qed

lemma connEvent_keeps_wellFormed:
  assumes "wellFormed st" and "connEvent st = Inr st'"
  shows "wellFormed st'"
proof -
  from assms(2) obtain st1 where a: "applyPending (hopAdvance st) = Inr st1"
    and c: "clockSync (st1\<lparr>nextHopTime := nextHopTime st1 + hopIntervalTicks (rconf st1)\<rparr>) = Inr st'"
    by (auto simp add: connEvent_def split: sum.splits)
  have w0: "wellFormed (hopAdvance st)"
    using assms(1) by (simp add: wellFormed_def hopAdvance_def)
  have w1: "wellFormed st1"
  proof (cases "instantReached (hopAdvance st)")
    case True
    with a obtain t where
      "computeMap1 (chanMap (next_rconf (hopAdvance st))) (mapping_table (hopAdvance st)) = Inr t"
      and "mapping_table st1 = t" and "anchorOffset st1 = anchorOffset (hopAdvance st)"
      and "aoInd st1 = aoInd (hopAdvance st)"
      by (auto simp add: applyPending_def Let_def split: sum.splits)
    with w0 show ?thesis
      by (simp add: wellFormed_def computeMap1_length)
  next
    case False
    with a w0 show ?thesis by (simp add: applyPending_not_due)
  qed
  from c w1 show ?thesis
    by (auto simp add: clockSync_def wellFormed_def median_length split: if_splits sum.splits prod.splits)
qed

end
